theory Spec2Isabelle
  imports Main "HOL-Library.Word"
begin

section \<open>Data model\<close>

text \<open>
  Policy-node ids are Mongo ObjectIds; the code only ever compares their \<open>toString()\<close>
  images, so an id is modelled by that string. \<open>timeofRetention\<close> is a number of seconds.
\<close>

type_synonym objectId = string

text \<open>
  The \<open>app\<close> document as the App schema has it, \<open>{name, attributes, purposes}\<close> with its
  \<open>_id\<close>; this is what the request handlers read from the database. The application data
  that the flat evaluator is given carries a \<open>timeofRetention\<close> besides.
\<close>

record appDocument =
  app_id :: objectId
  app_name :: string
  app_attributes :: "objectId list"
  app_purposes :: "objectId list"

record app = appDocument +
  app_timeofRetention :: int

text \<open>
  \<open>user.privacyPreference\<close> as in the user schema. The four lists that the evaluator
  reads through \<open>x || []\<close> may be absent (\<open>None\<close>).
\<close>

record privacyPreference =
  pp_attributes :: "objectId list"
  pp_exceptions :: "objectId list option"
  pp_denyAttributes :: "objectId list option"
  pp_allowedPurposes :: "objectId list"
  pp_prohibitedPurposes :: "objectId list option"
  pp_denyPurposes :: "objectId list option"
  pp_timeofRetention :: int

record user =
  user_id :: objectId
  fullName :: string
  privacyPreference :: privacyPreference

section \<open>Policy tree and nested-set query (latency benchmark, \<open>quick-test-data.js\<close>)\<close>

text \<open>A policy node \<open>{_id, name, left, right}\<close> and the \<open>privacyPolicy\<close> document.\<close>

record policyNode =
  node_id :: objectId
  node_name :: string
  left :: int
  right :: int

record privacyPolicy =
  policy_attributes :: "policyNode list"
  policy_purposes :: "policyNode list"

text \<open>
  The two database queries of \<open>measureNestedSetQuery\<close> (the function itself returns only the
  measured latency). The aggregation unwinds \<open>attributes\<close> and keeps the nodes whose \<open>_id\<close> is
  the app's first attribute; the \<open>findOne\<close> asks for a policy document with a node whose
  \<open>_id\<close> is among the user's attributes, whose \<open>left\<close> is at most and whose \<open>right\<close> is at
  least that of the app's attribute. Reading \<open>appAttributes[0].id\<close> of an empty array throws.
\<close>

definition aggregateUnwindMatch :: "privacyPolicy list \<Rightarrow> objectId \<Rightarrow> policyNode list" where
  "aggregateUnwindMatch coll nodeId =
     concat (map (\<lambda>doc. filter (\<lambda>n. node_id n = nodeId) (policy_attributes doc)) coll)"

definition elemMatch :: "objectId list \<Rightarrow> policyNode \<Rightarrow> policyNode \<Rightarrow> bool" where
  "elemMatch uppAttributes appAttribute n =
     (list_ex (\<lambda>u. u = node_id n) uppAttributes
      \<and> left n \<le> left appAttribute \<and> right n \<ge> right appAttribute)"

definition nestedSetQuery ::
  "privacyPolicy list \<Rightarrow> objectId list \<Rightarrow> objectId list \<Rightarrow> string + privacyPolicy option" where
  "nestedSetQuery coll appAttributes uppAttributes =
     (case appAttributes of
        [] \<Rightarrow> Inl ''TypeError''
      | appAttributeId # _ \<Rightarrow>
          (case aggregateUnwindMatch coll appAttributeId of
             [] \<Rightarrow> Inr None
           | appAttribute # _ \<Rightarrow>
               Inr (find (\<lambda>doc. list_ex (elemMatch uppAttributes appAttribute)
                                  (policy_attributes doc)) coll)))"

text \<open>
  \<open>isAncestorOrSelf(candidateId, targetId)\<close> is the specification's name for that query with
  one target (the app's attribute) and one candidate (the user's entry).
\<close>

definition isAncestorOrSelf :: "privacyPolicy \<Rightarrow> objectId \<Rightarrow> objectId \<Rightarrow> bool" where
  "isAncestorOrSelf policy candidateId targetId =
     (nestedSetQuery [policy] [targetId] [candidateId] = Inr (Some policy))"

text \<open>A taxonomy is a forest of nodes, each with an id, a name and its children.\<close>

datatype taxonomy = Taxon objectId string "taxonomy list"

text \<open>
  Modelled from the spec: \<open>buildTree\<close>, which the code does not contain (its policy tables
  are literals). The numbering is a pre-order traversal with one counter: a node takes
  \<open>left\<close> on the first visit and \<open>right\<close> after all its children were visited. The result is
  the list of numbered nodes and the next free number.
\<close>

fun numberTree :: "int \<Rightarrow> taxonomy \<Rightarrow> policyNode list \<times> int"
  and numberForest :: "int \<Rightarrow> taxonomy list \<Rightarrow> policyNode list \<times> int" where
  "numberTree n (Taxon i nm cs) =
     (case numberForest (n + 1) cs of
        (ns, m) \<Rightarrow> (\<lparr> node_id = i, node_name = nm, left = n, right = m \<rparr> # ns, m + 1))"
| "numberForest n [] = ([], n)"
| "numberForest n (t # ts) =
     (case numberTree n t of
        (ns, m) \<Rightarrow> (case numberForest m ts of (ns', m') \<Rightarrow> (ns @ ns', m')))"

text \<open>
  The ids of a tree, the ids of the subtree rooted at a given id, and the lists of sibling
  trees below every node of a tree.
\<close>

fun idsOf :: "taxonomy \<Rightarrow> objectId list"
  and idsOfAll :: "taxonomy list \<Rightarrow> objectId list" where
  "idsOf (Taxon i nm cs) = i # idsOfAll cs"
| "idsOfAll [] = []"
| "idsOfAll (t # ts) = idsOf t @ idsOfAll ts"

fun subtreeIds :: "objectId \<Rightarrow> taxonomy \<Rightarrow> objectId list"
  and subtreeIdsAll :: "objectId \<Rightarrow> taxonomy list \<Rightarrow> objectId list" where
  "subtreeIds a (Taxon i nm cs) = (if i = a then i # idsOfAll cs else subtreeIdsAll a cs)"
| "subtreeIdsAll a [] = []"
| "subtreeIdsAll a (t # ts) = subtreeIds a t @ subtreeIdsAll a ts"

fun siblingLists :: "taxonomy \<Rightarrow> taxonomy list list"
  and siblingListsAll :: "taxonomy list \<Rightarrow> taxonomy list list" where
  "siblingLists (Taxon i nm cs) = cs # siblingListsAll cs"
| "siblingListsAll [] = []"
| "siblingListsAll (t # ts) = siblingLists t @ siblingListsAll ts"

section \<open>Flat-hierarchy evaluator (\<open>src/baselines/flat-hierarchy.js\<close>)\<close>

text \<open>\<open>xs || []\<close> on a list that may be undefined.\<close>

definition orEmpty :: "'a list option \<Rightarrow> 'a list" where
  "orEmpty xs = (case xs of None \<Rightarrow> [] | Some ys \<Rightarrow> ys)"

text \<open>
  \<open>for (const appAttr of appAttributes) { found = userAttributes.some(...);
  if (!found) return false; } return true;\<close>
\<close>

fun evaluateAttributesFlat :: "objectId list \<Rightarrow> objectId list \<Rightarrow> bool" where
  "evaluateAttributesFlat [] userAttributes = True"
| "evaluateAttributesFlat (appAttr # rest) userAttributes =
     (let attrId = appAttr;
          found = list_ex (\<lambda>userAttr. userAttr = attrId) userAttributes
      in if \<not> found then False else evaluateAttributesFlat rest userAttributes)"

fun evaluatePurposesFlat :: "objectId list \<Rightarrow> objectId list \<Rightarrow> bool" where
  "evaluatePurposesFlat [] userPurposes = True"
| "evaluatePurposesFlat (appPurpose # rest) userPurposes =
     (let purposeId = appPurpose;
          found = list_ex (\<lambda>userPurpose. userPurpose = purposeId) userPurposes
      in if \<not> found then False else evaluatePurposesFlat rest userPurposes)"

text \<open>The object returned by \<open>evaluateFlatHierarchy\<close> (the measured latency left out).\<close>

record flatResult =
  result :: string
  approach :: string
  attrsAccepted :: bool
  purposesAccepted :: bool
  timeAccepted :: bool

definition evaluateFlatHierarchy :: "app \<Rightarrow> user \<Rightarrow> flatResult" where
  "evaluateFlatHierarchy a u =
     (let pp = privacyPreference u;
          isAllowedAttrs = evaluateAttributesFlat (app_attributes a) (pp_attributes pp);
          isExceptedAttrs = evaluateAttributesFlat (app_attributes a) (orEmpty (pp_exceptions pp));
          isDeniedAttrs = evaluateAttributesFlat (app_attributes a) (orEmpty (pp_denyAttributes pp));
          attrsOk = (isAllowedAttrs \<and> \<not> isExceptedAttrs \<and> \<not> isDeniedAttrs);
          isAllowedPurposes = evaluatePurposesFlat (app_purposes a) (pp_allowedPurposes pp);
          isExceptedPurposes =
            evaluatePurposesFlat (app_purposes a) (orEmpty (pp_prohibitedPurposes pp));
          isDeniedPurposes = evaluatePurposesFlat (app_purposes a) (orEmpty (pp_denyPurposes pp));
          purposesOk = (isAllowedPurposes \<and> \<not> isExceptedPurposes \<and> \<not> isDeniedPurposes);
          timeOk = (app_timeofRetention a \<le> pp_timeofRetention pp);
          isAccepted = (attrsOk \<and> purposesOk \<and> timeOk)
      in \<lparr> result = (if isAccepted then ''grant'' else ''deny''),
           approach = ''flat-hierarchy'',
           attrsAccepted = attrsOk,
           purposesAccepted = purposesOk,
           timeAccepted = timeOk \<rparr>)"

text \<open>
  The evaluator as the specification words it: a request is accepted when every required
  id is covered by some entry of the allowed list and by no entry of the excepted list and
  of the denied list. In the specification an entry covers an id when it is an ancestor of
  the id or the id itself: both are nodes of the tree, and the interval of the entry
  contains the interval of the id. The flat evaluator has no tree: there an entry covers
  an id when the two are equal.
\<close>

definition spec_covers :: "policyNode list \<Rightarrow> objectId \<Rightarrow> objectId \<Rightarrow> bool" where
  "spec_covers nodes u a =
     list_ex (\<lambda>A. node_id A = u
                \<and> list_ex (\<lambda>B. node_id B = a \<and> left A \<le> left B \<and> right B \<le> right A) nodes)
       nodes"

definition spec_accepted ::
  "(objectId \<Rightarrow> objectId \<Rightarrow> bool) \<Rightarrow>
   objectId list \<Rightarrow> objectId list \<Rightarrow> objectId list \<Rightarrow> objectId list \<Rightarrow> bool" where
  "spec_accepted covers required allowed excepted denied =
     list_all (\<lambda>a. list_ex (\<lambda>u. covers u a) allowed
                  \<and> \<not> list_ex (\<lambda>u. covers u a) excepted
                  \<and> \<not> list_ex (\<lambda>u. covers u a) denied) required"

definition spec_evaluate ::
  "(objectId \<Rightarrow> objectId \<Rightarrow> bool) \<Rightarrow> (objectId \<Rightarrow> objectId \<Rightarrow> bool) \<Rightarrow>
   app \<Rightarrow> user \<Rightarrow> string" where
  "spec_evaluate coversAttribute coversPurpose a u =
     (let pp = privacyPreference u
      in if spec_accepted coversAttribute (app_attributes a) (pp_attributes pp)
              (orEmpty (pp_exceptions pp)) (orEmpty (pp_denyAttributes pp))
            \<and> spec_accepted coversPurpose (app_purposes a) (pp_allowedPurposes pp)
              (orEmpty (pp_prohibitedPurposes pp)) (orEmpty (pp_denyPurposes pp))
            \<and> app_timeofRetention a \<le> pp_timeofRetention pp
         then ''grant'' else ''deny'')"

section \<open>Fingerprint generator (\<open>utils/hashUtils.js\<close>)\<close>

text \<open>
  The values that \<open>JSON.stringify\<close> is applied to. An object is the list of its own
  properties in the order in which \<open>JSON.stringify\<close> enumerates them.
\<close>

datatype json =
    JNull
  | JBool bool
  | JNum int
  | JStr string
  | JArr "json list"
  | JObj "(string \<times> json) list"

definition hexDigit :: "nat \<Rightarrow> char" where
  "hexDigit n = ''0123456789abcdef'' ! (n mod 16)"

text \<open>\<open>QuoteJSONString\<close>: the escapes of one character, and the quoted string.\<close>

definition escapeChar :: "char \<Rightarrow> string" where
  "escapeChar c =
     (if c = CHR 0x08 then [CHR 0x5C, CHR ''b'']
      else if c = CHR 0x09 then [CHR 0x5C, CHR ''t'']
      else if c = CHR 0x0A then [CHR 0x5C, CHR ''n'']
      else if c = CHR 0x0C then [CHR 0x5C, CHR ''f'']
      else if c = CHR 0x0D then [CHR 0x5C, CHR ''r'']
      else if c = CHR 0x22 then [CHR 0x5C, CHR 0x22]
      else if c = CHR 0x5C then [CHR 0x5C, CHR 0x5C]
      else if of_char c < (32::nat)
        then [CHR 0x5C, CHR ''u'', CHR ''0'', CHR ''0'',
              hexDigit (of_char c div 16), hexDigit (of_char c mod 16)]
      else [c])"

definition quoteJSONString :: "string \<Rightarrow> string" where
  "quoteJSONString s = [CHR 0x22] @ concat (map escapeChar s) @ [CHR 0x22]"

text \<open>
  \<open>Number.prototype.toString\<close> on an integer: its decimal digits (JavaScript prints integers
  this way below \<open>10^21\<close>).
\<close>

fun digitsOf :: "nat \<Rightarrow> string" where
  "digitsOf n = (if n < 10 then [hexDigit n] else digitsOf (n div 10) @ [hexDigit (n mod 10)])"

declare digitsOf.simps [simp del]

definition numberToString :: "int \<Rightarrow> string" where
  "numberToString i = (if i < 0 then ''-'' @ digitsOf (nat (- i)) else digitsOf (nat i))"

text \<open>\<open>Array.prototype.join\<close> with a separator.\<close>

fun joinWith :: "string \<Rightarrow> string list \<Rightarrow> string" where
  "joinWith sep [] = []"
| "joinWith sep [x] = x"
| "joinWith sep (x # y # ys) = x @ sep @ joinWith sep (y # ys)"

fun JSON_stringify :: "json \<Rightarrow> string" where
  "JSON_stringify JNull = ''null''"
| "JSON_stringify (JBool b) = (if b then ''true'' else ''false'')"
| "JSON_stringify (JNum i) = numberToString i"
| "JSON_stringify (JStr s) = quoteJSONString s"
| "JSON_stringify (JArr vs) = ''['' @ joinWith '','' (map JSON_stringify vs) @ '']''"
| "JSON_stringify (JObj kvs) =
     ''{'' @ joinWith '','' (map (\<lambda>(k, v). quoteJSONString k @ '':'' @ JSON_stringify v) kvs)
       @ ''}''"

text \<open>
  \<open>crypto.createHash('sha256').update(data).digest('hex')\<close>. The SHA-256 compression
  itself belongs to the runtime and is a parameter: a function from the data to a 256-bit
  digest. \<open>digest('hex')\<close> writes the digest as hexadecimal digits, most significant first.
\<close>

definition digestHex :: "256 word \<Rightarrow> string" where
  "digestHex w = map (\<lambda>i. hexDigit (unat (drop_bit (4 * (63 - i)) w) mod 16)) [0..<64]"

definition sha256 :: "(string \<Rightarrow> 256 word) \<Rightarrow> string \<Rightarrow> string" where
  "sha256 H data = digestHex (H data)"

definition computeCacheKey :: "(string \<Rightarrow> 256 word) \<Rightarrow> json \<Rightarrow> json \<Rightarrow> string" where
  "computeCacheKey H a userPreference =
     sha256 H (sha256 H (JSON_stringify a) @ ''-'' @ sha256 H (JSON_stringify userPreference))"

section \<open>Decision cache and request handlers (API server, throughput benchmark)\<close>

text \<open>
  A JavaScript \<open>Date\<close> holds a time value in milliseconds, at most \<open>8.64e15\<close> in absolute
  value; beyond that range a date is invalid. \<open>date\<close> is the type of the valid dates, and an
  invalid date is \<open>None\<close>.
\<close>

definition maxTime :: int where
  "maxTime = 8640000000000000"

typedef date = "{t :: int. \<bar>t\<bar> \<le> maxTime}"
  morphisms getTime Date
  by (rule exI [of _ 0]) (simp add: maxTime_def)

text \<open>
  The \<open>evaluateHash\<close> collection. \<open>createdAt\<close> is the timestamp Mongoose sets when the
  document is created.
\<close>

record evaluateHash =
  eh_userId :: objectId
  eh_hash :: string
  eh_result :: string
  eh_createdAt :: date

text \<open>
  \<open>moment().utc().subtract(Number(timeofRetention), "second")\<close>: the clock reading less
  \<open>1000 * timeofRetention\<close> milliseconds (for a whole number of seconds JavaScript computes
  this without rounding wherever the result is in the range of dates). Outside the range
  of dates the moment is invalid.
\<close>

definition retentionCutoff :: "date \<Rightarrow> int \<Rightarrow> date option" where
  "retentionCutoff now timeofRetention =
     (let t = getTime now - 1000 * timeofRetention
      in if \<bar>t\<bar> \<le> maxTime then Some (Date t) else None)"

text \<open>
  \<open>Models.EvaluateHash.findOne({userId, hash, createdAt: {$gte: since}})\<close>: the first
  stored document that matches. Mongoose casts \<open>since\<close> to a date before it queries, and
  rejects with a \<open>CastError\<close> when it is invalid (\<open>Inl\<close>, the message abridged).
\<close>

definition castError :: string where
  "castError = ''Cast to date failed''"

definition findOneEvaluateHash ::
  "evaluateHash list \<Rightarrow> objectId \<Rightarrow> string \<Rightarrow> date option
     \<Rightarrow> string + evaluateHash option" where
  "findOneEvaluateHash coll userId hashValue since =
     (case since of
        None \<Rightarrow> Inl castError
      | Some t \<Rightarrow>
          Inr (find (\<lambda>e. eh_userId e = userId \<and> eh_hash e = hashValue
                          \<and> getTime (eh_createdAt e) \<ge> getTime t) coll))"

text \<open>\<open>Models.EvaluateHash.create({userId, hash, result})\<close> at clock reading \<open>created\<close>.\<close>

definition createEvaluateHash ::
  "evaluateHash list \<Rightarrow> objectId \<Rightarrow> string \<Rightarrow> string \<Rightarrow> date \<Rightarrow> evaluateHash list" where
  "createEvaluateHash coll userId hashValue res created =
     coll @ [\<lparr> eh_userId = userId, eh_hash = hashValue, eh_result = res,
               eh_createdAt = created \<rparr>]"

text \<open>\<open>Models.EvaluateHash.deleteMany({userId})\<close>.\<close>

definition deleteManyByUser :: "evaluateHash list \<Rightarrow> objectId \<Rightarrow> evaluateHash list" where
  "deleteManyByUser coll userId = filter (\<lambda>e. eh_userId e \<noteq> userId) coll"

text \<open>
  What the handlers take from outside this code: the SHA-256 digest, the JSON images of the
  Mongoose documents (\<open>toJSON\<close>), and \<open>Helpers.PrivacyPreference.evaluate\<close>, which either
  throws (\<open>Inl\<close> the message) or returns whether the request is accepted. The cache key of
  a request is \<open>computeCacheKey(app, user.privacyPreference)\<close>.
\<close>

record env =
  digest :: "string \<Rightarrow> 256 word"
  appToJSON :: "appDocument \<Rightarrow> json"
  preferenceToJSON :: "privacyPreference \<Rightarrow> json"
  evaluate :: "appDocument \<Rightarrow> user \<Rightarrow> string + bool"

abbreviation cacheKeyOf :: "env \<Rightarrow> appDocument \<Rightarrow> user \<Rightarrow> string" where
  "cacheKeyOf E a u \<equiv>
     computeCacheKey (digest E) (appToJSON E a) (preferenceToJSON E (privacyPreference u))"

text \<open>The object returned by \<open>processEvaluationRequest\<close> (the measured latency left out).\<close>

record requestOutcome =
  ro_success :: bool
  ro_cacheHit :: bool
  ro_result :: string

text \<open>
  \<open>processEvaluationRequest(app, user)\<close>. \<open>now\<close> is the clock when the cache is read,
  \<open>created\<close> the clock when a new entry is written. A rejected promise is \<open>Inl\<close>.
\<close>

definition processEvaluationRequest ::
  "env \<Rightarrow> appDocument \<Rightarrow> user \<Rightarrow> date \<Rightarrow> date \<Rightarrow> evaluateHash list
     \<Rightarrow> (string + requestOutcome) \<times> evaluateHash list" where
  "processEvaluationRequest E a u now created coll =
     (let userId = user_id u;
          hashValue = cacheKeyOf E a u
      in case findOneEvaluateHash coll userId hashValue
                (retentionCutoff now (pp_timeofRetention (privacyPreference u))) of
           Inl message \<Rightarrow> (Inl message, coll)
         | Inr (Some entry) \<Rightarrow>
             (Inr \<lparr> ro_success = True, ro_cacheHit = True, ro_result = eh_result entry \<rparr>, coll)
         | Inr None \<Rightarrow>
             (case evaluate E a u of
                Inl message \<Rightarrow> (Inl message, coll)
              | Inr isAccepted \<Rightarrow>
                  (let res = (if isAccepted then ''grant'' else ''deny'')
                   in (Inr \<lparr> ro_success = True, ro_cacheHit = False, ro_result = res \<rparr>,
                       createEvaluateHash coll userId hashValue res created))))"

text \<open>
  The database seen by the API server, and its HTTP responses: the status with the error
  texts, the \<open>result\<close> and \<open>cacheHit\<close> of an evaluation, or the updated user.
\<close>

record db =
  db_apps :: "appDocument list"
  db_users :: "user list"
  db_evaluateHash :: "evaluateHash list"

datatype response =
    Status400 string
  | Status404 string
  | Status500 string string
  | EvaluateJson string bool
  | UserJson user

text \<open>\<open>!x\<close> on a request field: missing or the empty string.\<close>

definition missing :: "string option \<Rightarrow> bool" where
  "missing x = (x = None \<or> x = Some [])"

definition fieldValue :: "string option \<Rightarrow> string" where
  "fieldValue x = (case x of None \<Rightarrow> [] | Some v \<Rightarrow> v)"

text \<open>
  \<open>POST /api/evaluate\<close> with body \<open>{appId, userId}\<close>. Whatever is thrown inside the
  handler is answered with status 500.
\<close>

definition postEvaluate ::
  "env \<Rightarrow> string option \<Rightarrow> string option \<Rightarrow> date \<Rightarrow> date \<Rightarrow> db \<Rightarrow> response \<times> db" where
  "postEvaluate E appId userId now created d =
     (if missing appId \<or> missing userId
      then (Status400 ''Missing required fields: appId, userId'', d)
      else
        (let a = find (\<lambda>x. app_id x = fieldValue appId) (db_apps d);
             u = find (\<lambda>x. user_id x = fieldValue userId) (db_users d)
         in case a of
              None \<Rightarrow> (Status404 ''App not found'', d)
            | Some a \<Rightarrow>
           (case u of
              None \<Rightarrow> (Status404 ''User not found'', d)
            | Some u \<Rightarrow>
           (let hashValue = cacheKeyOf E a u
            in case findOneEvaluateHash (db_evaluateHash d) (user_id u) hashValue
                      (retentionCutoff now (pp_timeofRetention (privacyPreference u))) of
                 Inl message \<Rightarrow> (Status500 ''Evaluation failed'' message, d)
               | Inr (Some entry) \<Rightarrow> (EvaluateJson (eh_result entry) True, d)
               | Inr None \<Rightarrow>
                   (case evaluate E a u of
                      Inl message \<Rightarrow> (Status500 ''Evaluation failed'' message, d)
                    | Inr isAccepted \<Rightarrow>
                        (let res = (if isAccepted then ''grant'' else ''deny'')
                         in (EvaluateJson res False,
                             d\<lparr> db_evaluateHash :=
                                  createEvaluateHash (db_evaluateHash d) (user_id u)
                                    hashValue res created \<rparr>)))))))"

text \<open>\<open>Models.User.findByIdAndUpdate(id, {privacyPreference}, {new: true})\<close>.\<close>

fun findByIdAndUpdate :: "user list \<Rightarrow> objectId \<Rightarrow> privacyPreference \<Rightarrow> user option \<times> user list" where
  "findByIdAndUpdate [] userId pp = (None, [])"
| "findByIdAndUpdate (x # xs) userId pp =
     (if user_id x = userId
      then (Some (x\<lparr>privacyPreference := pp\<rparr>), x\<lparr>privacyPreference := pp\<rparr> # xs)
      else (case findByIdAndUpdate xs userId pp of (r, ys) \<Rightarrow> (r, x # ys)))"

text \<open>\<open>PUT /api/users/:userId/preferences\<close> with body \<open>{privacyPreference}\<close>.\<close>

definition putPreferences ::
  "objectId \<Rightarrow> privacyPreference option \<Rightarrow> db \<Rightarrow> response \<times> db" where
  "putPreferences userId body d =
     (case body of
        None \<Rightarrow> (Status400 ''Missing required field: privacyPreference'', d)
      | Some pp \<Rightarrow>
          (case findByIdAndUpdate (db_users d) userId pp of
             (None, users') \<Rightarrow> (Status404 ''User not found'', d)
           | (Some u, users') \<Rightarrow>
               (UserJson u,
                d\<lparr> db_users := users',
                   db_evaluateHash := deleteManyByUser (db_evaluateHash d) (user_id u) \<rparr>)))"

section \<open>Reading a serialization back\<close>

text \<open>
  The notions used to show that \<open>JSON.stringify\<close> can be read back unambiguously: decimal
  digits, the class of the first character of a serialized value, the constructor of a
  value, the characters that may follow a value inside a serialization, and the text of one
  member of an object.
\<close>

definition isDigit :: "char \<Rightarrow> bool" where
  "isDigit c = (c \<in> set ''0123456789'')"

definition startsWithDigit :: "string \<Rightarrow> bool" where
  "startsWithDigit r = (case r of [] \<Rightarrow> False | c # _ \<Rightarrow> isDigit c)"

definition tagOf :: "char \<Rightarrow> nat" where
  "tagOf c =
     (if c = CHR ''n'' then 0
      else if c = CHR ''t'' \<or> c = CHR ''f'' then 1
      else if isDigit c \<or> c = CHR ''-'' then 2
      else if c = CHR 0x22 then 3
      else if c = CHR ''['' then 4
      else if c = CHR ''{'' then 5
      else 6)"

fun ctor :: "json \<Rightarrow> nat" where
  "ctor JNull = 0"
| "ctor (JBool b) = 1"
| "ctor (JNum i) = 2"
| "ctor (JStr s) = 3"
| "ctor (JArr vs) = 4"
| "ctor (JObj kvs) = 5"

definition okRest :: "string \<Rightarrow> bool" where
  "okRest r = (case r of [] \<Rightarrow> True | c # _ \<Rightarrow> c = CHR '','' \<or> c = CHR '']'' \<or> c = CHR ''}'')"

abbreviation member :: "string \<times> json \<Rightarrow> string" where
  "member \<equiv> (\<lambda>(k, v). quoteJSONString k @ CHR '':'' # JSON_stringify v)"

text \<open>
  Two objects have the same fields when every field name is bound to the same value in both.
\<close>

fun sameFields :: "json \<Rightarrow> json \<Rightarrow> bool" where
  "sameFields (JObj kvs) (JObj kvs') =
     list_all (\<lambda>k. map_of kvs k = map_of kvs' k) (map fst kvs @ map fst kvs')"
| "sameFields a b = (a = b)"

section \<open>Example data\<close>

text \<open>The attribute and purpose tables of \<open>quick-test-data.js\<close>, and the attribute forest.\<close>

definition quickTestForest :: "taxonomy list" where
  "quickTestForest =
     [Taxon ''attr1'' ''Location'' [Taxon ''attr2'' ''GPS'' [], Taxon ''attr3'' ''IP Address'' []],
      Taxon ''attr4'' ''Contact'' [Taxon ''attr5'' ''Email'' []]]"

definition quickTestPolicy :: privacyPolicy where
  "quickTestPolicy =
     \<lparr> policy_attributes =
         [\<lparr> node_id = ''attr1'', node_name = ''Location'', left = 1, right = 6 \<rparr>,
          \<lparr> node_id = ''attr2'', node_name = ''GPS'', left = 2, right = 3 \<rparr>,
          \<lparr> node_id = ''attr3'', node_name = ''IP Address'', left = 4, right = 5 \<rparr>,
          \<lparr> node_id = ''attr4'', node_name = ''Contact'', left = 7, right = 10 \<rparr>,
          \<lparr> node_id = ''attr5'', node_name = ''Email'', left = 8, right = 9 \<rparr>],
       policy_purposes =
         [\<lparr> node_id = ''purp1'', node_name = ''Marketing'', left = 1, right = 4 \<rparr>,
          \<lparr> node_id = ''purp2'', node_name = ''Advertising'', left = 2, right = 3 \<rparr>,
          \<lparr> node_id = ''purp3'', node_name = ''Analytics'', left = 5, right = 6 \<rparr>] \<rparr>"

definition locationNode :: policyNode where
  "locationNode = \<lparr> node_id = ''attr1'', node_name = ''Location'', left = 1, right = 6 \<rparr>"

definition gpsNode :: policyNode where
  "gpsNode = \<lparr> node_id = ''attr2'', node_name = ''GPS'', left = 2, right = 3 \<rparr>"

definition ipNode :: policyNode where
  "ipNode = \<lparr> node_id = ''attr3'', node_name = ''IP Address'', left = 4, right = 5 \<rparr>"

text \<open>An app that requires GPS and IP address, and a user who allows both but denies GPS.\<close>

definition partialDenyApp :: app where
  "partialDenyApp =
     \<lparr> app_id = ''app1'', app_name = ''Test App 0'',
       app_attributes = [''attr2'', ''attr3''], app_purposes = [''purp3''],
       app_timeofRetention = 1800 \<rparr>"

definition partialDenyUser :: user where
  "partialDenyUser =
     \<lparr> user_id = ''user1'', fullName = ''Test User 0'',
       privacyPreference =
         \<lparr> pp_attributes = [''attr2'', ''attr3''], pp_exceptions = Some [],
           pp_denyAttributes = Some [''attr2''],
           pp_allowedPurposes = [''purp3''], pp_prohibitedPurposes = Some [],
           pp_denyPurposes = Some [],
           pp_timeofRetention = 3600 \<rparr> \<rparr>"

text \<open>
  The scenarios of the specification, on the ids of \<open>quick-test-data.js\<close>
  (\<open>attr1\<close> Location, \<open>attr2\<close> GPS, \<open>purp3\<close> Analytics): an app that requires GPS
  only, a user who allows Location and GPS and denies GPS, and an app whose retention
  (5000 s) exceeds the user's (1000 s).
\<close>

definition gpsApp :: app where
  "gpsApp =
     \<lparr> app_id = ''app2'', app_name = ''Test App 1'',
       app_attributes = [''attr2''], app_purposes = [''purp3''],
       app_timeofRetention = 1800 \<rparr>"

definition gpsDenyingUser :: user where
  "gpsDenyingUser =
     \<lparr> user_id = ''user2'', fullName = ''Test User 1'',
       privacyPreference =
         \<lparr> pp_attributes = [''attr1'', ''attr2''], pp_exceptions = Some [],
           pp_denyAttributes = Some [''attr2''],
           pp_allowedPurposes = [''purp3''], pp_prohibitedPurposes = Some [],
           pp_denyPurposes = Some [],
           pp_timeofRetention = 3600 \<rparr> \<rparr>"

text \<open>
  Scenario 1 of the specification: a user who allows Location only. And a user who allows
  Location and GPS and denies nothing.
\<close>

definition locationOnlyUser :: user where
  "locationOnlyUser =
     \<lparr> user_id = ''user4'', fullName = ''Test User 3'',
       privacyPreference =
         \<lparr> pp_attributes = [''attr1''], pp_exceptions = Some [],
           pp_denyAttributes = Some [],
           pp_allowedPurposes = [''purp3''], pp_prohibitedPurposes = Some [],
           pp_denyPurposes = Some [],
           pp_timeofRetention = 3600 \<rparr> \<rparr>"

definition gpsAllowingUser :: user where
  "gpsAllowingUser =
     \<lparr> user_id = ''user5'', fullName = ''Test User 4'',
       privacyPreference =
         \<lparr> pp_attributes = [''attr1'', ''attr2''], pp_exceptions = Some [],
           pp_denyAttributes = Some [],
           pp_allowedPurposes = [''purp3''], pp_prohibitedPurposes = Some [],
           pp_denyPurposes = Some [],
           pp_timeofRetention = 3600 \<rparr> \<rparr>"

definition longRetentionApp :: app where
  "longRetentionApp =
     \<lparr> app_id = ''app3'', app_name = ''Test App 2'',
       app_attributes = [''attr2''], app_purposes = [''purp3''],
       app_timeofRetention = 5000 \<rparr>"

definition shortRetentionUser :: user where
  "shortRetentionUser =
     \<lparr> user_id = ''user3'', fullName = ''Test User 2'',
       privacyPreference =
         \<lparr> pp_attributes = [''attr1'', ''attr2''], pp_exceptions = None,
           pp_denyAttributes = None,
           pp_allowedPurposes = [''purp3''], pp_prohibitedPurposes = None,
           pp_denyPurposes = None,
           pp_timeofRetention = 1000 \<rparr> \<rparr>"

definition noAttributesApp :: app where
  "noAttributesApp =
     \<lparr> app_id = ''app4'', app_name = ''Test App 3'',
       app_attributes = [], app_purposes = [''purp3''],
       app_timeofRetention = 1800 \<rparr>"

definition noPurposesApp :: app where
  "noPurposesApp =
     \<lparr> app_id = ''app5'', app_name = ''Test App 4'',
       app_attributes = [''attr2''], app_purposes = [],
       app_timeofRetention = 1800 \<rparr>"

text \<open>A cache entry written at clock reading 1000000 ms, for a retention of 3600 s.\<close>

definition staleEntry :: evaluateHash where
  "staleEntry = \<lparr> eh_userId = ''user1'', eh_hash = ''0f3a'', eh_result = ''grant'',
                  eh_createdAt = Date 1000000 \<rparr>"

text \<open>
  An environment for the examples. None of it is the code under study: a toy digest, the
  fields of the schemas as the JSON images of the documents, and, in the place of
  \<open>Helpers.PrivacyPreference.evaluate\<close>, a stand-in that accepts no request. Then the
  document of an app, a database without cache entries, one with an entry for each of two
  users, and the latter after the first user's preference was replaced.
\<close>

definition exampleEnv :: env where
  "exampleEnv =
     \<lparr> digest = (\<lambda>s. word_of_nat (length s)),
       appToJSON = (\<lambda>a. JObj [(''_id'', JStr (app_id a)), (''name'', JStr (app_name a)),
                                (''attributes'', JArr (map JStr (app_attributes a))),
                                (''purposes'', JArr (map JStr (app_purposes a)))]),
       preferenceToJSON =
         (\<lambda>p. JObj [(''attributes'', JArr (map JStr (pp_attributes p))),
                      (''exceptions'', JArr (map JStr (orEmpty (pp_exceptions p)))),
                      (''denyAttributes'', JArr (map JStr (orEmpty (pp_denyAttributes p)))),
                      (''allowedPurposes'', JArr (map JStr (pp_allowedPurposes p))),
                      (''prohibitedPurposes'',
                         JArr (map JStr (orEmpty (pp_prohibitedPurposes p)))),
                      (''denyPurposes'', JArr (map JStr (orEmpty (pp_denyPurposes p)))),
                      (''timeofRetention'', JNum (pp_timeofRetention p))]),
       evaluate = (\<lambda>a u. Inr False) \<rparr>"

definition gpsDocument :: appDocument where
  "gpsDocument =
     \<lparr> app_id = ''app2'', app_name = ''Test App 1'',
       app_attributes = [''attr2''], app_purposes = [''purp3''] \<rparr>"

definition sampleDb :: db where
  "sampleDb = \<lparr> db_apps = [gpsDocument], db_users = [gpsDenyingUser], db_evaluateHash = [] \<rparr>"

definition invalidatedDb :: db where
  "invalidatedDb =
     \<lparr> db_apps = [gpsDocument],
       db_users = [gpsDenyingUser\<lparr>privacyPreference := privacyPreference shortRetentionUser\<rparr>],
       db_evaluateHash =
         [\<lparr> eh_userId = ''user3'', eh_hash = ''0f3a'', eh_result = ''deny'',
            eh_createdAt = Date 1500 \<rparr>] \<rparr>"

definition cachedDb :: db where
  "cachedDb =
     \<lparr> db_apps = [gpsDocument], db_users = [gpsDenyingUser],
       db_evaluateHash =
         [\<lparr> eh_userId = ''user2'', eh_hash = ''0f3a'', eh_result = ''grant'',
            eh_createdAt = Date 1000 \<rparr>,
          \<lparr> eh_userId = ''user3'', eh_hash = ''0f3a'', eh_result = ''deny'',
            eh_createdAt = Date 1500 \<rparr>] \<rparr>"

text \<open>Two records that hold the same two fields in different orders.\<close>

definition appNameFirst :: json where
  "appNameFirst = JObj [(''name'', JStr ''Test App 0''), (''timeofRetention'', JNum 1800)]"

definition appRetentionFirst :: json where
  "appRetentionFirst = JObj [(''timeofRetention'', JNum 1800), (''name'', JStr ''Test App 0'')]"

text \<open>
  An id that is not a node of the policy, required by an app and allowed by a user; the
  app's document; and an environment whose evaluator throws.
\<close>

definition ghostApp :: app where
  "ghostApp =
     \<lparr> app_id = ''app6'', app_name = ''Test App 5'',
       app_attributes = [''ghost''], app_purposes = [''purp3''],
       app_timeofRetention = 1800 \<rparr>"

definition ghostUser :: user where
  "ghostUser =
     \<lparr> user_id = ''user6'', fullName = ''Test User 5'',
       privacyPreference =
         \<lparr> pp_attributes = [''ghost''], pp_exceptions = Some [],
           pp_denyAttributes = Some [],
           pp_allowedPurposes = [''purp3''], pp_prohibitedPurposes = Some [],
           pp_denyPurposes = Some [],
           pp_timeofRetention = 3600 \<rparr> \<rparr>"

definition ghostDocument :: appDocument where
  "ghostDocument =
     \<lparr> app_id = ''app6'', app_name = ''Test App 5'',
       app_attributes = [''ghost''], app_purposes = [''purp3''] \<rparr>"

definition failingEnv :: env where
  "failingEnv = exampleEnv\<lparr> evaluate := (\<lambda>a u. Inl ''Cast to ObjectId failed'') \<rparr>"

section \<open>Properties of the flat evaluator\<close>

lemma evaluateAttributesFlat_iff:
  "evaluateAttributesFlat xs ys = (set xs \<subseteq> set ys)"
  by (induction xs) (auto simp: list_ex_iff)

lemma evaluatePurposesFlat_iff:
  "evaluatePurposesFlat xs ys = (set xs \<subseteq> set ys)"
  by (induction xs) (auto simp: list_ex_iff)

lemma spec_accepted_iff:
  "spec_accepted (=) required allowed excepted denied =
     (\<forall>a \<in> set required. a \<in> set allowed \<and> a \<notin> set excepted \<and> a \<notin> set denied)"
  by (auto simp: spec_accepted_def list_all_iff list_ex_iff)

lemma flat_fields:
  "attrsAccepted (evaluateFlatHierarchy a u) =
     (set (app_attributes a) \<subseteq> set (pp_attributes (privacyPreference u))
      \<and> \<not> set (app_attributes a) \<subseteq> set (orEmpty (pp_exceptions (privacyPreference u)))
      \<and> \<not> set (app_attributes a) \<subseteq> set (orEmpty (pp_denyAttributes (privacyPreference u))))"
  "purposesAccepted (evaluateFlatHierarchy a u) =
     (set (app_purposes a) \<subseteq> set (pp_allowedPurposes (privacyPreference u))
      \<and> \<not> set (app_purposes a) \<subseteq> set (orEmpty (pp_prohibitedPurposes (privacyPreference u)))
      \<and> \<not> set (app_purposes a) \<subseteq> set (orEmpty (pp_denyPurposes (privacyPreference u))))"
  "timeAccepted (evaluateFlatHierarchy a u) =
     (app_timeofRetention a \<le> pp_timeofRetention (privacyPreference u))"
  "result (evaluateFlatHierarchy a u) =
     (if attrsAccepted (evaluateFlatHierarchy a u)
         \<and> purposesAccepted (evaluateFlatHierarchy a u)
         \<and> timeAccepted (evaluateFlatHierarchy a u)
      then ''grant'' else ''deny'')"
  by (simp_all add: evaluateFlatHierarchy_def Let_def evaluateAttributesFlat_iff
        evaluatePurposesFlat_iff)

lemma spec_accepted_single:
  "spec_accepted (=) [x] allowed excepted denied =
     (set [x] \<subseteq> set allowed \<and> \<not> set [x] \<subseteq> set excepted \<and> \<not> set [x] \<subseteq> set denied)"
  by (simp add: spec_accepted_iff)

lemma spec_accepted_sufficient:
  assumes "required \<noteq> []" and "spec_accepted (=) required allowed excepted denied"
  shows "set required \<subseteq> set allowed \<and> \<not> set required \<subseteq> set excepted
         \<and> \<not> set required \<subseteq> set denied"
proof -
  from assms(1) obtain x where x: "x \<in> set required"
    by (cases required) auto
  from assms(2) have all: "\<forall>a \<in> set required. a \<in> set allowed \<and> a \<notin> set excepted \<and> a \<notin> set denied"
    by (simp add: spec_accepted_iff)
  from all have "set required \<subseteq> set allowed" by blast
  moreover from all x have "\<not> set required \<subseteq> set excepted" by blast
  moreover from all x have "\<not> set required \<subseteq> set denied" by blast
  ultimately show ?thesis by blast
qed

text \<open>
  Claim C1, as the specification states it, fails on the flat evaluator in two ways. The
  evaluator has no hierarchy: a user who allows Location and an app that requires GPS
  (scenario 1) are granted by the rule and denied by the code. And it compares whole lists:
  an app that requires GPS and IP address, both allowed, GPS denied, is denied by the rule
  (with the tree as with equality) and granted by the code.
\<close>

theorem flat_evaluator_departs_from_rule:
  "result (evaluateFlatHierarchy gpsApp locationOnlyUser) = ''deny''
   \<and> spec_evaluate (spec_covers (policy_attributes quickTestPolicy))
        (spec_covers (policy_purposes quickTestPolicy)) gpsApp locationOnlyUser = ''grant''
   \<and> result (evaluateFlatHierarchy partialDenyApp partialDenyUser) = ''grant''
   \<and> spec_evaluate (spec_covers (policy_attributes quickTestPolicy))
        (spec_covers (policy_purposes quickTestPolicy)) partialDenyApp partialDenyUser = ''deny''
   \<and> spec_evaluate (=) (=) partialDenyApp partialDenyUser = ''deny''"
  by (simp add: evaluateFlatHierarchy_def spec_evaluate_def spec_accepted_def spec_covers_def
        quickTestPolicy_def gpsApp_def locationOnlyUser_def
        partialDenyApp_def partialDenyUser_def orEmpty_def Let_def)

text \<open>
  Claim C1 (amended). The flat evaluator compares ids by equality. It returns grant iff
  \<open>attrsAccepted\<close>, \<open>purposesAccepted\<close> and \<open>timeAccepted\<close> all hold. When it grants,
  the app requires at least one attribute and one purpose, every required id is in the
  allowed list, not all required ids are in the excepted list, not all are in the denied
  list, and the retention check holds. When the app requires at least one attribute and
  one purpose and the rule of the specification, with equality as cover, grants, the
  evaluator grants. When all required attributes are in the excepted list, or all are in
  the denied list, the evaluator denies; and for an app that requires exactly one
  attribute and one purpose the evaluator and the rule agree.
\<close>

theorem flat_grant_conditions:
  "(result (evaluateFlatHierarchy a u) = ''grant'' \<longleftrightarrow>
      attrsAccepted (evaluateFlatHierarchy a u)
      \<and> purposesAccepted (evaluateFlatHierarchy a u)
      \<and> timeAccepted (evaluateFlatHierarchy a u))
   \<and> (result (evaluateFlatHierarchy a u) = ''grant'' \<longrightarrow>
        app_attributes a \<noteq> [] \<and> app_purposes a \<noteq> []
        \<and> list_all (\<lambda>x. x \<in> set (pp_attributes (privacyPreference u))) (app_attributes a)
        \<and> \<not> list_all (\<lambda>x. x \<in> set (orEmpty (pp_exceptions (privacyPreference u))))
               (app_attributes a)
        \<and> \<not> list_all (\<lambda>x. x \<in> set (orEmpty (pp_denyAttributes (privacyPreference u))))
               (app_attributes a)
        \<and> list_all (\<lambda>x. x \<in> set (pp_allowedPurposes (privacyPreference u))) (app_purposes a)
        \<and> \<not> list_all (\<lambda>x. x \<in> set (orEmpty (pp_prohibitedPurposes (privacyPreference u))))
               (app_purposes a)
        \<and> \<not> list_all (\<lambda>x. x \<in> set (orEmpty (pp_denyPurposes (privacyPreference u))))
               (app_purposes a)
        \<and> app_timeofRetention a \<le> pp_timeofRetention (privacyPreference u))
   \<and> (app_attributes a \<noteq> [] \<and> app_purposes a \<noteq> []
        \<and> spec_evaluate (=) (=) a u = ''grant'' \<longrightarrow>
        result (evaluateFlatHierarchy a u) = ''grant'')
   \<and> (list_all (\<lambda>x. x \<in> set (orEmpty (pp_exceptions (privacyPreference u)))) (app_attributes a)
        \<or> list_all (\<lambda>x. x \<in> set (orEmpty (pp_denyAttributes (privacyPreference u))))
             (app_attributes a) \<longrightarrow>
        result (evaluateFlatHierarchy a u) = ''deny'')
   \<and> (app_attributes a = [x] \<and> app_purposes a = [p] \<longrightarrow>
        result (evaluateFlatHierarchy a u) = spec_evaluate (=) (=) a u)"
proof -
  let ?r = "evaluateFlatHierarchy a u"
  let ?pp = "privacyPreference u"
  have grant: "result ?r = ''grant'' \<longleftrightarrow>
      attrsAccepted ?r \<and> purposesAccepted ?r \<and> timeAccepted ?r"
    by (simp add: flat_fields(4))
  have attrs: "attrsAccepted ?r \<longleftrightarrow>
        list_all (\<lambda>x. x \<in> set (pp_attributes ?pp)) (app_attributes a)
        \<and> \<not> list_all (\<lambda>x. x \<in> set (orEmpty (pp_exceptions ?pp))) (app_attributes a)
        \<and> \<not> list_all (\<lambda>x. x \<in> set (orEmpty (pp_denyAttributes ?pp))) (app_attributes a)"
    unfolding flat_fields(1) list_all_iff by blast
  have purposes: "purposesAccepted ?r \<longleftrightarrow>
        list_all (\<lambda>x. x \<in> set (pp_allowedPurposes ?pp)) (app_purposes a)
        \<and> \<not> list_all (\<lambda>x. x \<in> set (orEmpty (pp_prohibitedPurposes ?pp))) (app_purposes a)
        \<and> \<not> list_all (\<lambda>x. x \<in> set (orEmpty (pp_denyPurposes ?pp))) (app_purposes a)"
    unfolding flat_fields(2) list_all_iff by blast
  have time: "timeAccepted ?r \<longleftrightarrow> app_timeofRetention a \<le> pp_timeofRetention ?pp"
    by (rule flat_fields(3))
  have nonempty: "app_attributes a \<noteq> [] \<and> app_purposes a \<noteq> []"
    if "attrsAccepted ?r" "purposesAccepted ?r"
    using that by (auto simp: flat_fields)
  have necessary: "app_attributes a \<noteq> [] \<and> app_purposes a \<noteq> []
        \<and> list_all (\<lambda>x. x \<in> set (pp_attributes ?pp)) (app_attributes a)
        \<and> \<not> list_all (\<lambda>x. x \<in> set (orEmpty (pp_exceptions ?pp))) (app_attributes a)
        \<and> \<not> list_all (\<lambda>x. x \<in> set (orEmpty (pp_denyAttributes ?pp))) (app_attributes a)
        \<and> list_all (\<lambda>x. x \<in> set (pp_allowedPurposes ?pp)) (app_purposes a)
        \<and> \<not> list_all (\<lambda>x. x \<in> set (orEmpty (pp_prohibitedPurposes ?pp))) (app_purposes a)
        \<and> \<not> list_all (\<lambda>x. x \<in> set (orEmpty (pp_denyPurposes ?pp))) (app_purposes a)
        \<and> app_timeofRetention a \<le> pp_timeofRetention ?pp"
    if "result ?r = ''grant''"
  proof -
    from that grant have acc: "attrsAccepted ?r" "purposesAccepted ?r" "timeAccepted ?r"
      by blast+
    from nonempty [OF acc(1,2)] acc attrs purposes time show ?thesis
      by blast
  qed
  have sufficient: "result ?r = ''grant''"
    if ne: "app_attributes a \<noteq> []" "app_purposes a \<noteq> []"
      and sp: "spec_evaluate (=) (=) a u = ''grant''"
  proof -
    from sp have s: "spec_accepted (=) (app_attributes a) (pp_attributes ?pp)
              (orEmpty (pp_exceptions ?pp)) (orEmpty (pp_denyAttributes ?pp))"
        "spec_accepted (=) (app_purposes a) (pp_allowedPurposes ?pp)
              (orEmpty (pp_prohibitedPurposes ?pp)) (orEmpty (pp_denyPurposes ?pp))"
        "app_timeofRetention a \<le> pp_timeofRetention ?pp"
      by (simp_all add: spec_evaluate_def Let_def split: if_splits)
    from spec_accepted_sufficient [OF ne(1) s(1)] have "attrsAccepted ?r"
      by (simp add: flat_fields(1))
    moreover from spec_accepted_sufficient [OF ne(2) s(2)] have "purposesAccepted ?r"
      by (simp add: flat_fields(2))
    moreover from s(3) have "timeAccepted ?r"
      by (simp add: flat_fields(3))
    ultimately show ?thesis
      using grant by blast
  qed
  have refused: "result ?r = ''deny''"
    if "list_all (\<lambda>x. x \<in> set (orEmpty (pp_exceptions ?pp))) (app_attributes a)
        \<or> list_all (\<lambda>x. x \<in> set (orEmpty (pp_denyAttributes ?pp))) (app_attributes a)"
  proof -
    from that attrs have "\<not> attrsAccepted ?r" by blast
    then show ?thesis by (simp add: flat_fields(4))
  qed
  have single: "result ?r = spec_evaluate (=) (=) a u"
    if "app_attributes a = [x]" "app_purposes a = [p]"
    using that
    by (simp add: flat_fields spec_evaluate_def Let_def spec_accepted_single)
  from grant necessary sufficient refused single show ?thesis
    by blast
qed

theorem flat_grant_conditions_witness:
  "result (evaluateFlatHierarchy gpsApp gpsAllowingUser) = ''grant''
   \<and> app_attributes gpsApp \<noteq> [] \<and> app_purposes gpsApp \<noteq> []
   \<and> spec_evaluate (=) (=) gpsApp gpsAllowingUser = ''grant''
   \<and> app_timeofRetention gpsApp \<le> pp_timeofRetention (privacyPreference gpsAllowingUser)
   \<and> app_attributes gpsApp = [''attr2''] \<and> app_purposes gpsApp = [''purp3'']
   \<and> list_all (\<lambda>x. x \<in> set (orEmpty (pp_denyAttributes (privacyPreference gpsDenyingUser))))
        (app_attributes gpsApp)
   \<and> result (evaluateFlatHierarchy gpsApp gpsDenyingUser) = ''deny''
   \<and> spec_evaluate (=) (=) gpsApp gpsDenyingUser = ''deny''"
proof -
  have a: "app_attributes gpsApp = [''attr2'']" and p: "app_purposes gpsApp = [''purp3'']"
    by (simp_all add: gpsApp_def)
  have ne: "app_attributes gpsApp \<noteq> []" "app_purposes gpsApp \<noteq> []"
    by (simp_all add: a p)
  have s: "spec_evaluate (=) (=) gpsApp gpsAllowingUser = ''grant''"
    by (simp add: spec_evaluate_def spec_accepted_def gpsApp_def gpsAllowingUser_def
          orEmpty_def Let_def)
  have d: "list_all (\<lambda>x. x \<in> set (orEmpty (pp_denyAttributes (privacyPreference gpsDenyingUser))))
             (app_attributes gpsApp)"
    by (simp add: gpsApp_def gpsDenyingUser_def orEmpty_def)
  from flat_grant_conditions [of gpsApp gpsAllowingUser "''attr2''" "''purp3''"] ne s
  have g: "result (evaluateFlatHierarchy gpsApp gpsAllowingUser) = ''grant''"
    by blast
  from flat_grant_conditions [of gpsApp gpsAllowingUser "''attr2''" "''purp3''"] g
  have t: "app_timeofRetention gpsApp \<le> pp_timeofRetention (privacyPreference gpsAllowingUser)"
    by blast
  from flat_grant_conditions [of gpsApp gpsDenyingUser "''attr2''" "''purp3''"] a p d
  have "result (evaluateFlatHierarchy gpsApp gpsDenyingUser) = ''deny''"
    and "result (evaluateFlatHierarchy gpsApp gpsDenyingUser)
           = spec_evaluate (=) (=) gpsApp gpsDenyingUser"
    by blast+
  with a p ne s d g t show ?thesis by metis
qed

text \<open>
  Claim C2. The retention check passes exactly when the app's \<open>timeofRetention\<close> is at
  most the user's, and whenever the app's retention exceeds the user's the result is deny,
  whatever the attribute and purpose checks give.
\<close>

theorem retention_check:
  "(timeAccepted (evaluateFlatHierarchy a u) \<longleftrightarrow>
      app_timeofRetention a \<le> pp_timeofRetention (privacyPreference u))
   \<and> (app_timeofRetention a > pp_timeofRetention (privacyPreference u) \<longrightarrow>
        result (evaluateFlatHierarchy a u) = ''deny'')"
  by (simp add: evaluateFlatHierarchy_def Let_def)

theorem retention_check_witness:
  "app_timeofRetention longRetentionApp = 5000
   \<and> pp_timeofRetention (privacyPreference shortRetentionUser) = 1000
   \<and> \<not> timeAccepted (evaluateFlatHierarchy longRetentionApp shortRetentionUser)
   \<and> result (evaluateFlatHierarchy longRetentionApp shortRetentionUser) = ''deny''"
proof -
  have t: "app_timeofRetention longRetentionApp = 5000"
    "pp_timeofRetention (privacyPreference shortRetentionUser) = 1000"
    by (simp_all add: longRetentionApp_def shortRetentionUser_def)
  from retention_check [of longRetentionApp shortRetentionUser] t
  show ?thesis by simp
qed

text \<open>
  Claim C10. For an app whose list of required attributes is empty the flat evaluator
  returns deny whatever the user's preference is: the membership check over an empty list
  is true for the allowed, the excepted and the denied list alike, so \<open>attrsAccepted\<close> is
  false. The same holds for an empty list of purposes.
\<close>

theorem empty_requirements_denied:
  "(app_attributes a = [] \<longrightarrow>
      evaluateAttributesFlat (app_attributes a) (pp_attributes (privacyPreference u))
      \<and> evaluateAttributesFlat (app_attributes a) (orEmpty (pp_exceptions (privacyPreference u)))
      \<and> evaluateAttributesFlat (app_attributes a)
           (orEmpty (pp_denyAttributes (privacyPreference u)))
      \<and> \<not> attrsAccepted (evaluateFlatHierarchy a u)
      \<and> result (evaluateFlatHierarchy a u) = ''deny'')
   \<and> (app_purposes a = [] \<longrightarrow>
      evaluatePurposesFlat (app_purposes a) (pp_allowedPurposes (privacyPreference u))
      \<and> evaluatePurposesFlat (app_purposes a)
           (orEmpty (pp_prohibitedPurposes (privacyPreference u)))
      \<and> evaluatePurposesFlat (app_purposes a) (orEmpty (pp_denyPurposes (privacyPreference u)))
      \<and> \<not> purposesAccepted (evaluateFlatHierarchy a u)
      \<and> result (evaluateFlatHierarchy a u) = ''deny'')"
  by (simp add: evaluateFlatHierarchy_def Let_def)

theorem empty_requirements_denied_witness:
  "app_attributes noAttributesApp = [] \<and> app_purposes noPurposesApp = []
   \<and> result (evaluateFlatHierarchy noAttributesApp gpsDenyingUser) = ''deny''
   \<and> result (evaluateFlatHierarchy noPurposesApp gpsDenyingUser) = ''deny''"
proof -
  have e: "app_attributes noAttributesApp = []" "app_purposes noPurposesApp = []"
    by (simp_all add: noAttributesApp_def noPurposesApp_def)
  from empty_requirements_denied [of noAttributesApp gpsDenyingUser]
       empty_requirements_denied [of noPurposesApp gpsDenyingUser] e
  show ?thesis by simp
qed

section \<open>Properties of the decision cache\<close>

lemma getTime_range: "\<bar>getTime t\<bar> \<le> maxTime"
  using getTime [of t] by simp

lemma cutoff_Some:
  "retentionCutoff now ret = Some s \<Longrightarrow> getTime s = getTime now - 1000 * ret"
  by (auto simp: retentionCutoff_def Let_def Date_inverse split: if_splits)

lemma cutoff_valid:
  assumes "\<bar>getTime now - 1000 * ret\<bar> \<le> maxTime"
  obtains s where "retentionCutoff now ret = Some s" "getTime s = getTime now - 1000 * ret"
  using assms by (simp add: retentionCutoff_def Let_def Date_inverse)

lemma cutoff_None:
  "maxTime < \<bar>getTime now - 1000 * ret\<bar> \<Longrightarrow> retentionCutoff now ret = None"
  by (simp add: retentionCutoff_def Let_def)

lemma find_SomeD: "find P xs = Some x \<Longrightarrow> P x \<and> x \<in> set xs"
  by (induction xs) (auto split: if_splits)

lemma findOne_SomeD:
  assumes "findOneEvaluateHash coll uid h since = Inr (Some e)"
  obtains s where "since = Some s" "e \<in> set coll" "eh_userId e = uid" "eh_hash e = h"
    "getTime s \<le> getTime (eh_createdAt e)"
proof (cases since)
  case None
  with assms show ?thesis by (simp add: findOneEvaluateHash_def)
next
  case (Some s)
  with assms have "find (\<lambda>e. eh_userId e = uid \<and> eh_hash e = h
                          \<and> getTime (eh_createdAt e) \<ge> getTime s) coll = Some e"
    by (simp add: findOneEvaluateHash_def)
  from find_SomeD [OF this] Some that show ?thesis by blast
qed

lemma findOne_None_iff:
  "findOneEvaluateHash coll uid h (Some s) = Inr None \<longleftrightarrow>
     (\<forall>e \<in> set coll. \<not> (eh_userId e = uid \<and> eh_hash e = h
                            \<and> getTime s \<le> getTime (eh_createdAt e)))"
  by (auto simp: findOneEvaluateHash_def find_None_iff)

lemma findOne_Inr:
  "\<exists>r. findOneEvaluateHash coll uid h (Some s) = Inr r"
  by (simp add: findOneEvaluateHash_def)

lemma findOne_unique:
  assumes "e \<in> set coll" "eh_userId e = uid" "eh_hash e = h"
    "getTime s \<le> getTime (eh_createdAt e)"
    and "\<forall>e' \<in> set coll. eh_userId e' = uid \<and> eh_hash e' = h \<longrightarrow> e' = e"
  shows "findOneEvaluateHash coll uid h (Some s) = Inr (Some e)"
proof -
  from findOne_Inr obtain r where r: "findOneEvaluateHash coll uid h (Some s) = Inr r"
    by blast
  show ?thesis
  proof (cases r)
    case None
    with r have "findOneEvaluateHash coll uid h (Some s) = Inr None" by simp
    with assms(1-4) show ?thesis unfolding findOne_None_iff by blast
  next
    case (Some x)
    with r have "findOneEvaluateHash coll uid h (Some s) = Inr (Some x)" by simp
    from findOne_SomeD [OF this] assms(5) have "x = e" by metis
    with r Some show ?thesis by simp
  qed
qed

lemma findOne_only_stale:
  assumes "\<forall>e' \<in> set coll. eh_userId e' = uid \<and> eh_hash e' = h \<longrightarrow> e' = e"
    and "getTime (eh_createdAt e) < getTime s"
  shows "findOneEvaluateHash coll uid h (Some s) = Inr None"
  unfolding findOne_None_iff
proof (intro ballI notI)
  fix e' assume "e' \<in> set coll"
    and h: "eh_userId e' = uid \<and> eh_hash e' = h \<and> getTime s \<le> getTime (eh_createdAt e')"
  with assms(1) have "e' = e" by blast
  with h assms(2) show False by simp
qed

text \<open>
  Claim C4. The cache lookup for \<open>(userId, hash)\<close> with retention \<open>ret\<close> seconds returns a
  stored entry only when \<open>now - createdAt \<le> ret\<close> (both sides in milliseconds here). An entry
  created at \<open>t0\<close> makes the lookup a hit at the clock reading \<open>t0 + ret - eps\<close>; at
  \<open>t0 + ret + eps\<close> it is never returned although it is still stored, and the lookup is a
  miss when it is the only entry under that key. This holds where the start of the
  retention window, \<open>t0 - eps\<close> or \<open>t0 + eps\<close>, is in the range of dates; when the start of
  the window is outside that range the lookup throws.
\<close>

theorem cache_lookup_ttl:
  "(findOneEvaluateHash coll uid h (retentionCutoff now ret) = Inr (Some r) \<longrightarrow>
      r \<in> set coll \<and> eh_userId r = uid \<and> eh_hash r = h
      \<and> getTime now - getTime (eh_createdAt r) \<le> 1000 * ret)
   \<and> (e \<in> set coll \<and> eh_userId e = uid \<and> eh_hash e = h \<and> 0 \<le> eps
        \<and> getTime now = getTime (eh_createdAt e) + 1000 * ret - eps
        \<and> - maxTime \<le> getTime (eh_createdAt e) - eps \<longrightarrow>
        (\<exists>r. findOneEvaluateHash coll uid h (retentionCutoff now ret) = Inr (Some r)))
   \<and> (e \<in> set coll \<and> 0 < eps
        \<and> getTime now = getTime (eh_createdAt e) + 1000 * ret + eps \<longrightarrow>
        findOneEvaluateHash coll uid h (retentionCutoff now ret) \<noteq> Inr (Some e))
   \<and> (e \<in> set coll \<and> eh_userId e = uid \<and> eh_hash e = h
        \<and> (\<forall>e' \<in> set coll. eh_userId e' = uid \<and> eh_hash e' = h \<longrightarrow> e' = e) \<longrightarrow>
        (0 \<le> eps \<and> getTime now = getTime (eh_createdAt e) + 1000 * ret - eps
           \<and> - maxTime \<le> getTime (eh_createdAt e) - eps \<longrightarrow>
           findOneEvaluateHash coll uid h (retentionCutoff now ret) = Inr (Some e))
        \<and> (0 < eps \<and> getTime now = getTime (eh_createdAt e) + 1000 * ret + eps
           \<and> getTime (eh_createdAt e) + eps \<le> maxTime \<longrightarrow>
           findOneEvaluateHash coll uid h (retentionCutoff now ret) = Inr None))
   \<and> (maxTime < \<bar>getTime now - 1000 * ret\<bar> \<longrightarrow>
        findOneEvaluateHash coll uid h (retentionCutoff now ret) = Inl castError)"
proof -
  let ?look = "findOneEvaluateHash coll uid h (retentionCutoff now ret)"
  let ?t0 = "getTime (eh_createdAt e)"
  have fresh: thesis
    if "0 \<le> eps" "getTime now = ?t0 + 1000 * ret - eps" "- maxTime \<le> ?t0 - eps"
      and k: "\<And>s. retentionCutoff now ret = Some s \<Longrightarrow> getTime s \<le> ?t0 \<Longrightarrow> thesis"
    for thesis
  proof -
    from getTime_range [of "eh_createdAt e"] that(1-3)
    have "\<bar>getTime now - 1000 * ret\<bar> \<le> maxTime" by simp
    then obtain s where s: "retentionCutoff now ret = Some s"
      "getTime s = getTime now - 1000 * ret"
      by (rule cutoff_valid)
    from s(2) that(1,2) have "getTime s \<le> ?t0" by simp
    with s(1) show thesis by (rule k)
  qed
  have stale: thesis
    if "0 < eps" "getTime now = ?t0 + 1000 * ret + eps" "?t0 + eps \<le> maxTime"
      and k: "\<And>s. retentionCutoff now ret = Some s \<Longrightarrow> ?t0 < getTime s \<Longrightarrow> thesis"
    for thesis
  proof -
    from getTime_range [of "eh_createdAt e"] that(1-3)
    have "\<bar>getTime now - 1000 * ret\<bar> \<le> maxTime" by simp
    then obtain s where s: "retentionCutoff now ret = Some s"
      "getTime s = getTime now - 1000 * ret"
      by (rule cutoff_valid)
    from s(2) that(1,2) have "?t0 < getTime s" by simp
    with s(1) show thesis by (rule k)
  qed
  have c1: "r \<in> set coll \<and> eh_userId r = uid \<and> eh_hash r = h
      \<and> getTime now - getTime (eh_createdAt r) \<le> 1000 * ret"
    if "?look = Inr (Some r)"
  proof -
    from that obtain s where s: "retentionCutoff now ret = Some s" "r \<in> set coll"
      "eh_userId r = uid" "eh_hash r = h" "getTime s \<le> getTime (eh_createdAt r)"
      by (rule findOne_SomeD)
    from cutoff_Some [OF s(1)] s(5) have "getTime now - getTime (eh_createdAt r) \<le> 1000 * ret"
      by simp
    with s(2-4) show ?thesis by simp
  qed
  have c2: "\<exists>r. ?look = Inr (Some r)"
    if "e \<in> set coll" "eh_userId e = uid" "eh_hash e = h" "0 \<le> eps"
      "getTime now = ?t0 + 1000 * ret - eps" "- maxTime \<le> ?t0 - eps"
  proof (rule fresh [OF that(4-6)])
    fix s assume s: "retentionCutoff now ret = Some s" "getTime s \<le> ?t0"
    from findOne_Inr obtain x where x: "findOneEvaluateHash coll uid h (Some s) = Inr x"
      by blast
    have "x \<noteq> None"
    proof
      assume "x = None"
      with x have "findOneEvaluateHash coll uid h (Some s) = Inr None" by simp
      with that(1-3) s(2) show False unfolding findOne_None_iff by blast
    qed
    then obtain y where "x = Some y" by (cases x) simp_all
    with x s(1) show "\<exists>r. ?look = Inr (Some r)" by simp
  qed
  have c3: "?look \<noteq> Inr (Some e)"
    if "0 < eps" "getTime now = ?t0 + 1000 * ret + eps"
  proof
    assume "?look = Inr (Some e)"
    then obtain s where s: "retentionCutoff now ret = Some s" "getTime s \<le> ?t0"
      by (rule findOne_SomeD)
    from cutoff_Some [OF s(1)] s(2) that show False by simp
  qed
  have c4: "?look = Inr (Some e)"
    if "e \<in> set coll" "eh_userId e = uid" "eh_hash e = h"
       "\<forall>e' \<in> set coll. eh_userId e' = uid \<and> eh_hash e' = h \<longrightarrow> e' = e"
       "0 \<le> eps" "getTime now = ?t0 + 1000 * ret - eps" "- maxTime \<le> ?t0 - eps"
  proof (rule fresh [OF that(5-7)])
    fix s assume s: "retentionCutoff now ret = Some s" "getTime s \<le> ?t0"
    show "?look = Inr (Some e)"
      unfolding s(1) by (rule findOne_unique [OF that(1-3) s(2) that(4)])
  qed
  have c5: "?look = Inr None"
    if "\<forall>e' \<in> set coll. eh_userId e' = uid \<and> eh_hash e' = h \<longrightarrow> e' = e"
       "0 < eps" "getTime now = ?t0 + 1000 * ret + eps" "?t0 + eps \<le> maxTime"
  proof (rule stale [OF that(2-4)])
    fix s assume s: "retentionCutoff now ret = Some s" "?t0 < getTime s"
    show "?look = Inr None"
      unfolding s(1) by (rule findOne_only_stale [OF that(1) s(2)])
  qed
  have c6: "?look = Inl castError" if "maxTime < \<bar>getTime now - 1000 * ret\<bar>"
    by (simp add: cutoff_None [OF that] findOneEvaluateHash_def)
  have A: "?look = Inr (Some r) \<longrightarrow>
      r \<in> set coll \<and> eh_userId r = uid \<and> eh_hash r = h
      \<and> getTime now - getTime (eh_createdAt r) \<le> 1000 * ret"
    by (rule impI) (rule c1)
  have B: "e \<in> set coll \<and> eh_userId e = uid \<and> eh_hash e = h \<and> 0 \<le> eps
        \<and> getTime now = ?t0 + 1000 * ret - eps \<and> - maxTime \<le> ?t0 - eps \<longrightarrow>
        (\<exists>r. ?look = Inr (Some r))"
    by (intro impI, elim conjE, rule c2)
  have C: "e \<in> set coll \<and> 0 < eps \<and> getTime now = ?t0 + 1000 * ret + eps \<longrightarrow>
        ?look \<noteq> Inr (Some e)"
    by (intro impI, elim conjE, rule c3)
  have D: "e \<in> set coll \<and> eh_userId e = uid \<and> eh_hash e = h
        \<and> (\<forall>e' \<in> set coll. eh_userId e' = uid \<and> eh_hash e' = h \<longrightarrow> e' = e) \<longrightarrow>
        (0 \<le> eps \<and> getTime now = ?t0 + 1000 * ret - eps \<and> - maxTime \<le> ?t0 - eps \<longrightarrow>
           ?look = Inr (Some e))
        \<and> (0 < eps \<and> getTime now = ?t0 + 1000 * ret + eps \<and> ?t0 + eps \<le> maxTime \<longrightarrow>
           ?look = Inr None)"
    by (intro impI conjI; elim conjE) (rule c4, assumption+, rule c5, assumption+)
  have E: "maxTime < \<bar>getTime now - 1000 * ret\<bar> \<longrightarrow> ?look = Inl castError"
    by (rule impI) (rule c6)
  from A B C D E show ?thesis by (intro conjI)
qed

lemma staleEntry_only:
  "\<forall>e' \<in> set [staleEntry]. eh_userId e' = ''user1'' \<and> eh_hash e' = ''0f3a'' \<longrightarrow> e' = staleEntry"
  by simp

lemma getTime_Date: "\<bar>t\<bar> \<le> maxTime \<Longrightarrow> getTime (Date t) = t"
  by (simp add: Date_inverse)

theorem cache_lookup_ttl_witness:
  "findOneEvaluateHash [staleEntry] ''user1'' ''0f3a'' (retentionCutoff (Date 4599999) 3600)
     = Inr (Some staleEntry)
   \<and> findOneEvaluateHash [staleEntry] ''user1'' ''0f3a'' (retentionCutoff (Date 4600001) 3600)
     = Inr None
   \<and> findOneEvaluateHash [staleEntry] ''user1'' ''0f3a''
       (retentionCutoff (Date 1001000) 10000000000000) = Inl castError
   \<and> staleEntry \<in> set [staleEntry]
   \<and> getTime (Date 4599999) - getTime (eh_createdAt staleEntry) \<le> 1000 * 3600"
proof -
  have h: "staleEntry \<in> set [staleEntry] \<and> eh_userId staleEntry = ''user1'' \<and>
    eh_hash staleEntry = ''0f3a'' \<and>
    (\<forall>e' \<in> set [staleEntry]. eh_userId e' = ''user1'' \<and> eh_hash e' = ''0f3a'' \<longrightarrow> e' = staleEntry)"
    using staleEntry_only by (simp add: staleEntry_def)
  have t0: "getTime (eh_createdAt staleEntry) = 1000000"
    by (simp add: staleEntry_def getTime_Date maxTime_def)
  have before: "(0::int) \<le> 1
      \<and> getTime (Date 4599999) = getTime (eh_createdAt staleEntry) + 1000 * 3600 - 1
      \<and> - maxTime \<le> getTime (eh_createdAt staleEntry) - 1"
    by (simp add: t0 getTime_Date maxTime_def)
  have after: "(0::int) < 1
      \<and> getTime (Date 4600001) = getTime (eh_createdAt staleEntry) + 1000 * 3600 + 1
      \<and> getTime (eh_createdAt staleEntry) + 1 \<le> maxTime"
    by (simp add: t0 getTime_Date maxTime_def)
  have far: "maxTime < \<bar>getTime (Date 1001000) - 1000 * 10000000000000\<bar>"
    by (simp add: getTime_Date maxTime_def)
  from cache_lookup_ttl [of "[staleEntry]" "''user1''" "''0f3a''" "Date 4599999" 3600 staleEntry
         staleEntry 1] h before
  have 1: "findOneEvaluateHash [staleEntry] ''user1'' ''0f3a''
             (retentionCutoff (Date 4599999) 3600) = Inr (Some staleEntry)"
    by blast
  from cache_lookup_ttl [of "[staleEntry]" "''user1''" "''0f3a''" "Date 4599999" 3600 staleEntry
         staleEntry 1] 1
  have 5: "getTime (Date 4599999) - getTime (eh_createdAt staleEntry) \<le> 1000 * 3600"
    by blast
  from cache_lookup_ttl [of "[staleEntry]" "''user1''" "''0f3a''" "Date 4600001" 3600 staleEntry
         staleEntry 1] h after
  have 2: "findOneEvaluateHash [staleEntry] ''user1'' ''0f3a''
             (retentionCutoff (Date 4600001) 3600) = Inr None"
    by blast
  from cache_lookup_ttl [of "[staleEntry]" "''user1''" "''0f3a''" "Date 1001000"
         10000000000000 staleEntry staleEntry 1] far
  have 3: "findOneEvaluateHash [staleEntry] ''user1'' ''0f3a''
             (retentionCutoff (Date 1001000) 10000000000000) = Inl castError"
    by blast
  from 1 2 3 5 show ?thesis by simp
qed

lemma findOne_append_miss:
  "findOneEvaluateHash coll uid h (Some s) = Inr None \<Longrightarrow>
   findOneEvaluateHash (coll @ [e]) uid h (Some s) =
     Inr (if eh_userId e = uid \<and> eh_hash e = h \<and> getTime s \<le> getTime (eh_createdAt e)
          then Some e else None)"
  unfolding findOneEvaluateHash_def
  by (induction coll) (auto split: if_splits)

lemma findOne_None_mono:
  "findOneEvaluateHash coll uid h (Some s) = Inr None \<Longrightarrow> getTime s \<le> getTime s' \<Longrightarrow>
   findOneEvaluateHash coll uid h (Some s') = Inr None"
  unfolding findOne_None_iff by force

lemma findOne_miss_valid:
  assumes "findOneEvaluateHash coll uid h since = Inr None"
  obtains s where "since = Some s"
  using assms by (cases since) (simp_all add: findOneEvaluateHash_def)

lemma per_miss:
  assumes "findOneEvaluateHash coll (user_id u) (cacheKeyOf E a u)
             (retentionCutoff now (pp_timeofRetention (privacyPreference u))) = Inr None"
    and "evaluate E a u = Inr isAccepted"
  shows "processEvaluationRequest E a u now created coll =
     (Inr \<lparr> ro_success = True, ro_cacheHit = False,
            ro_result = (if isAccepted then ''grant'' else ''deny'') \<rparr>,
      createEvaluateHash coll (user_id u) (cacheKeyOf E a u)
        (if isAccepted then ''grant'' else ''deny'') created)"
  using assms by (simp add: processEvaluationRequest_def Let_def)

lemma per_hit:
  assumes "findOneEvaluateHash coll (user_id u) (cacheKeyOf E a u)
             (retentionCutoff now (pp_timeofRetention (privacyPreference u))) = Inr (Some e)"
  shows "processEvaluationRequest E a u now created coll =
     (Inr \<lparr> ro_success = True, ro_cacheHit = True, ro_result = eh_result e \<rparr>, coll)"
  using assms by (simp add: processEvaluationRequest_def Let_def)

lemma second_lookup:
  assumes miss: "findOneEvaluateHash coll uid h (retentionCutoff t1 R) = Inr None"
    and order: "getTime t1 \<le> getTime t2"
    and window: "getTime t2 - getTime c1 \<le> 1000 * R"
  shows "findOneEvaluateHash (createEvaluateHash coll uid h res c1) uid h (retentionCutoff t2 R)
           = Inr (Some \<lparr> eh_userId = uid, eh_hash = h, eh_result = res, eh_createdAt = c1 \<rparr>)"
proof -
  from miss obtain s1 where s1: "retentionCutoff t1 R = Some s1"
    by (rule findOne_miss_valid)
  note v1 = cutoff_Some [OF s1]
  from getTime_range [of s1] v1 order have low: "- maxTime \<le> getTime t2 - 1000 * R"
    by simp
  from getTime_range [of c1] window have high: "getTime t2 - 1000 * R \<le> maxTime"
    by simp
  from low high have "\<bar>getTime t2 - 1000 * R\<bar> \<le> maxTime" by simp
  then obtain s2 where s2: "retentionCutoff t2 R = Some s2"
    "getTime s2 = getTime t2 - 1000 * R"
    by (rule cutoff_valid)
  from v1 s2(2) order have le: "getTime s1 \<le> getTime s2" by simp
  from miss have "findOneEvaluateHash coll uid h (Some s1) = Inr None"
    by (simp add: s1)
  from findOne_None_mono [OF this le]
  have "findOneEvaluateHash coll uid h (Some s2) = Inr None" .
  from findOne_append_miss [OF this] s2(2) window show ?thesis
    by (simp add: createEvaluateHash_def s2(1))
qed

lemma post_found:
  assumes "appId \<noteq> []" "userId \<noteq> []"
    and "find (\<lambda>x. app_id x = appId) (db_apps d) = Some a"
    and "find (\<lambda>x. user_id x = userId) (db_users d) = Some u"
  shows "postEvaluate E (Some appId) (Some userId) now created d =
     (case findOneEvaluateHash (db_evaluateHash d) (user_id u) (cacheKeyOf E a u)
             (retentionCutoff now (pp_timeofRetention (privacyPreference u))) of
        Inl message \<Rightarrow> (Status500 ''Evaluation failed'' message, d)
      | Inr (Some entry) \<Rightarrow> (EvaluateJson (eh_result entry) True, d)
      | Inr None \<Rightarrow>
          (case evaluate E a u of
             Inl message \<Rightarrow> (Status500 ''Evaluation failed'' message, d)
           | Inr isAccepted \<Rightarrow>
               (EvaluateJson (if isAccepted then ''grant'' else ''deny'') False,
                d\<lparr> db_evaluateHash :=
                     createEvaluateHash (db_evaluateHash d) (user_id u) (cacheKeyOf E a u)
                       (if isAccepted then ''grant'' else ''deny'') created \<rparr>)))"
  using assms
  by (simp add: postEvaluate_def missing_def fieldValue_def Let_def
        split: option.splits sum.splits)

text \<open>
  Claim C6. On a cache miss the request invokes the evaluator, stores its result under
  \<open>(userId, hash)\<close> and returns it with \<open>cacheHit = false\<close>; a following request with the
  same arguments, no earlier than the first and within the retention window of the stored
  entry, returns the same result with \<open>cacheHit = true\<close> and leaves the cache as it is. This
  holds for \<open>processEvaluationRequest\<close> and for \<open>POST /api/evaluate\<close>.
\<close>

theorem decide_miss_then_hit:
  assumes miss: "findOneEvaluateHash coll (user_id u) (cacheKeyOf E a u)
                   (retentionCutoff t1 (pp_timeofRetention (privacyPreference u))) = Inr None"
    and ev: "evaluate E a u = Inr isAccepted"
    and order: "getTime t1 \<le> getTime t2"
    and window: "getTime t2 - getTime c1 \<le> 1000 * pp_timeofRetention (privacyPreference u)"
  shows "(let res = (if isAccepted then ''grant'' else ''deny'');
              coll1 = createEvaluateHash coll (user_id u) (cacheKeyOf E a u) res c1
          in processEvaluationRequest E a u t1 c1 coll =
               (Inr \<lparr> ro_success = True, ro_cacheHit = False, ro_result = res \<rparr>, coll1)
             \<and> processEvaluationRequest E a u t2 c2 coll1 =
               (Inr \<lparr> ro_success = True, ro_cacheHit = True, ro_result = res \<rparr>, coll1)
             \<and> (appId \<noteq> [] \<and> userId \<noteq> [] \<and> db_evaluateHash d = coll
                  \<and> find (\<lambda>x. app_id x = appId) (db_apps d) = Some a
                  \<and> find (\<lambda>x. user_id x = userId) (db_users d) = Some u \<longrightarrow>
                 postEvaluate E (Some appId) (Some userId) t1 c1 d =
                   (EvaluateJson res False, d\<lparr> db_evaluateHash := coll1 \<rparr>)
                 \<and> postEvaluate E (Some appId) (Some userId) t2 c2
                     (d\<lparr> db_evaluateHash := coll1 \<rparr>) =
                   (EvaluateJson res True, d\<lparr> db_evaluateHash := coll1 \<rparr>)))"
proof -
  define res where "res = (if isAccepted then ''grant'' else ''deny'')"
  define coll1 where "coll1 = createEvaluateHash coll (user_id u) (cacheKeyOf E a u) res c1"
  define entry where "entry = \<lparr> eh_userId = user_id u, eh_hash = cacheKeyOf E a u,
                                 eh_result = res, eh_createdAt = c1 \<rparr>"
  have first: "processEvaluationRequest E a u t1 c1 coll =
      (Inr \<lparr> ro_success = True, ro_cacheHit = False, ro_result = res \<rparr>, coll1)"
    unfolding res_def coll1_def by (rule per_miss [OF miss ev])
  have look: "findOneEvaluateHash coll1 (user_id u) (cacheKeyOf E a u)
                (retentionCutoff t2 (pp_timeofRetention (privacyPreference u)))
              = Inr (Some entry)"
    unfolding coll1_def entry_def by (rule second_lookup [OF miss order window])
  have second: "processEvaluationRequest E a u t2 c2 coll1 =
      (Inr \<lparr> ro_success = True, ro_cacheHit = True, ro_result = res \<rparr>, coll1)"
    using per_hit [OF look] by (simp add: entry_def)
  have http: "postEvaluate E (Some appId) (Some userId) t1 c1 d =
                   (EvaluateJson res False, d\<lparr> db_evaluateHash := coll1 \<rparr>)
                 \<and> postEvaluate E (Some appId) (Some userId) t2 c2
                     (d\<lparr> db_evaluateHash := coll1 \<rparr>) =
                   (EvaluateJson res True, d\<lparr> db_evaluateHash := coll1 \<rparr>)"
    if ne: "appId \<noteq> []" "userId \<noteq> []" and c: "db_evaluateHash d = coll"
      and fa: "find (\<lambda>x. app_id x = appId) (db_apps d) = Some a"
      and fu: "find (\<lambda>x. user_id x = userId) (db_users d) = Some u"
  proof
    show "postEvaluate E (Some appId) (Some userId) t1 c1 d =
                   (EvaluateJson res False, d\<lparr> db_evaluateHash := coll1 \<rparr>)"
      using miss ev
      by (simp add: post_found [OF ne fa fu] c res_def coll1_def)
    have fa': "find (\<lambda>x. app_id x = appId) (db_apps (d\<lparr> db_evaluateHash := coll1 \<rparr>)) = Some a"
      and fu': "find (\<lambda>x. user_id x = userId) (db_users (d\<lparr> db_evaluateHash := coll1 \<rparr>)) = Some u"
      using fa fu by simp_all
    show "postEvaluate E (Some appId) (Some userId) t2 c2 (d\<lparr> db_evaluateHash := coll1 \<rparr>) =
                   (EvaluateJson res True, d\<lparr> db_evaluateHash := coll1 \<rparr>)"
      using look by (simp add: post_found [OF ne fa' fu'] entry_def)
  qed
  from first second http show ?thesis
    unfolding Let_def res_def [symmetric] coll1_def [symmetric] by blast
qed

theorem decide_miss_then_hit_witness:
  "fst (processEvaluationRequest exampleEnv gpsDocument gpsDenyingUser (Date 1000) (Date 1001) [])
     = Inr \<lparr> ro_success = True, ro_cacheHit = False, ro_result = ''deny'' \<rparr>
   \<and> fst (processEvaluationRequest exampleEnv gpsDocument gpsDenyingUser (Date 2000) (Date 2001)
            (snd (processEvaluationRequest exampleEnv gpsDocument gpsDenyingUser
                    (Date 1000) (Date 1001) [])))
     = Inr \<lparr> ro_success = True, ro_cacheHit = True, ro_result = ''deny'' \<rparr>
   \<and> fst (postEvaluate exampleEnv (Some ''app2'') (Some ''user2'') (Date 1000) (Date 1001)
            sampleDb)
     = EvaluateJson ''deny'' False
   \<and> fst (postEvaluate exampleEnv (Some ''app2'') (Some ''user2'') (Date 2000) (Date 2001)
            (snd (postEvaluate exampleEnv (Some ''app2'') (Some ''user2'') (Date 1000)
                    (Date 1001) sampleDb)))
     = EvaluateJson ''deny'' True"
proof -
  have miss: "findOneEvaluateHash [] (user_id gpsDenyingUser)
                (cacheKeyOf exampleEnv gpsDocument gpsDenyingUser)
                (retentionCutoff (Date 1000)
                   (pp_timeofRetention (privacyPreference gpsDenyingUser)))
              = Inr None"
    by (simp add: findOneEvaluateHash_def retentionCutoff_def Let_def gpsDenyingUser_def
          getTime_Date maxTime_def)
  have ev: "evaluate exampleEnv gpsDocument gpsDenyingUser = Inr False"
    by (simp add: exampleEnv_def)
  have order: "getTime (Date 1000) \<le> getTime (Date 2000)"
    by (simp add: getTime_Date maxTime_def)
  have window: "getTime (Date 2000) - getTime (Date 1001)
                  \<le> 1000 * pp_timeofRetention (privacyPreference gpsDenyingUser)"
    by (simp add: gpsDenyingUser_def getTime_Date maxTime_def)
  have found: "''app2'' \<noteq> [] \<and> ''user2'' \<noteq> [] \<and> db_evaluateHash sampleDb = []
      \<and> find (\<lambda>x. app_id x = ''app2'') (db_apps sampleDb) = Some gpsDocument
      \<and> find (\<lambda>x. user_id x = ''user2'') (db_users sampleDb) = Some gpsDenyingUser"
    by (simp add: sampleDb_def gpsDocument_def gpsDenyingUser_def)
  note inst = decide_miss_then_hit [where appId = "''app2''" and userId = "''user2''"
      and d = sampleDb and ?c2.0 = "Date 2001", OF miss ev order window, unfolded Let_def]
  let ?coll1 = "createEvaluateHash [] (user_id gpsDenyingUser)
         (cacheKeyOf exampleEnv gpsDocument gpsDenyingUser) ''deny'' (Date 1001)"
  from inst have p1: "processEvaluationRequest exampleEnv gpsDocument gpsDenyingUser
       (Date 1000) (Date 1001) [] =
      (Inr \<lparr> ro_success = True, ro_cacheHit = False, ro_result = ''deny'' \<rparr>, ?coll1)"
    by simp
  from inst have p2: "processEvaluationRequest exampleEnv gpsDocument gpsDenyingUser
       (Date 2000) (Date 2001) ?coll1 =
      (Inr \<lparr> ro_success = True, ro_cacheHit = True, ro_result = ''deny'' \<rparr>, ?coll1)"
    by simp
  from inst found have h1: "postEvaluate exampleEnv (Some ''app2'') (Some ''user2'')
       (Date 1000) (Date 1001) sampleDb =
      (EvaluateJson ''deny'' False, sampleDb\<lparr> db_evaluateHash := ?coll1 \<rparr>)"
    by simp
  from inst found have h2: "postEvaluate exampleEnv (Some ''app2'') (Some ''user2'')
       (Date 2000) (Date 2001) (sampleDb\<lparr> db_evaluateHash := ?coll1 \<rparr>) =
      (EvaluateJson ''deny'' True, sampleDb\<lparr> db_evaluateHash := ?coll1 \<rparr>)"
    by simp
  show ?thesis
    by (simp add: p1 p2 h1 h2)
qed

lemma findByIdAndUpdate_Some:
  "findByIdAndUpdate us userId pp = (Some u', us') \<Longrightarrow>
     user_id u' = userId \<and> privacyPreference u' = pp"
  by (induction us arbitrary: us') (auto split: if_splits prod.splits)

lemma put_success:
  assumes "putPreferences userId (Some pp) d = (UserJson u', d')"
  shows "user_id u' = userId \<and> privacyPreference u' = pp
         \<and> db_evaluateHash d' = deleteManyByUser (db_evaluateHash d) userId
         \<and> db_apps d' = db_apps d"
proof -
  obtain r us' where f: "findByIdAndUpdate (db_users d) userId pp = (r, us')"
    by (cases "findByIdAndUpdate (db_users d) userId pp")
  show ?thesis
  proof (cases r)
    case None
    with f assms show ?thesis by (simp add: putPreferences_def)
  next
    case (Some u)
    with f have "user_id u = userId \<and> privacyPreference u = pp"
      by (simp add: findByIdAndUpdate_Some)
    with f Some assms show ?thesis by (auto simp: putPreferences_def)
  qed
qed

lemma deleteMany_no_entry:
  "findOneEvaluateHash (deleteManyByUser coll userId) userId h since \<noteq> Inr (Some e)"
proof
  assume "findOneEvaluateHash (deleteManyByUser coll userId) userId h since = Inr (Some e)"
  then obtain s where "e \<in> set (deleteManyByUser coll userId)" "eh_userId e = userId"
    by (rule findOne_SomeD)
  then show False by (simp add: deleteManyByUser_def)
qed

lemma post_no_hit:
  assumes "\<And>h since e. findOneEvaluateHash (db_evaluateHash d) userId h since \<noteq> Inr (Some e)"
  shows "fst (postEvaluate E appId (Some userId) now created d) \<noteq> EvaluateJson r True"
proof (cases "missing appId \<or> missing (Some userId)")
  case True
  then show ?thesis by (simp add: postEvaluate_def)
next
  case False
  show ?thesis
  proof (cases "find (\<lambda>x. app_id x = fieldValue appId) (db_apps d)")
    case None
    with False show ?thesis by (simp add: postEvaluate_def)
  next
    case (Some a)
    show ?thesis
    proof (cases "find (\<lambda>x. user_id x = userId) (db_users d)")
      case None
      with False Some show ?thesis by (simp add: postEvaluate_def fieldValue_def)
    next
      case u: (Some u)
      from find_SomeD [OF u] have "user_id u = userId" by simp
      with False Some u assms show ?thesis
        by (simp add: postEvaluate_def fieldValue_def Let_def split: sum.splits option.splits)
    qed
  qed
qed

lemma per_no_hit:
  assumes "\<And>h since e. findOneEvaluateHash coll (user_id u) h since \<noteq> Inr (Some e)"
    and "fst (processEvaluationRequest E a u now created coll) = Inr out"
  shows "\<not> ro_cacheHit out"
  using assms
  by (auto simp: processEvaluationRequest_def Let_def split: sum.splits option.splits)

text \<open>
  Claim C5. After \<open>PUT /api/users/:userId/preferences\<close> has updated a user's preference,
  every cache entry stored for that user id is deleted, so the next evaluation request for
  that user is not a cache hit, whatever the app and the time.
\<close>

theorem preference_change_invalidates:
  assumes "putPreferences userId (Some pp) d = (UserJson u', d')"
  shows "user_id u' = userId \<and> privacyPreference u' = pp
    \<and> db_evaluateHash d' = deleteManyByUser (db_evaluateHash d) userId
    \<and> (\<forall>e \<in> set (db_evaluateHash d'). eh_userId e \<noteq> userId)
    \<and> fst (postEvaluate E appId (Some userId) now created d') \<noteq> EvaluateJson r True
    \<and> (user_id u = userId
         \<and> fst (processEvaluationRequest E a u now created (db_evaluateHash d')) = Inr out
        \<longrightarrow> \<not> ro_cacheHit out)"
proof -
  note s = put_success [OF assms]
  have gone: "\<forall>e \<in> set (db_evaluateHash d'). eh_userId e \<noteq> userId"
    using s by (simp add: deleteManyByUser_def)
  have none: "findOneEvaluateHash (db_evaluateHash d') userId h since \<noteq> Inr (Some e)"
    for h since e
    using s by (simp add: deleteMany_no_entry)
  have http: "fst (postEvaluate E appId (Some userId) now created d') \<noteq> EvaluateJson r True"
    by (rule post_no_hit) (rule none)
  have bench: "\<not> ro_cacheHit out"
    if "user_id u = userId"
      "fst (processEvaluationRequest E a u now created (db_evaluateHash d')) = Inr out"
    by (rule per_no_hit [OF _ that(2)]) (simp add: that(1) none)
  from s gone http bench show ?thesis by blast
qed

theorem preference_change_invalidates_witness:
  "putPreferences ''user2'' (Some (privacyPreference shortRetentionUser)) cachedDb
     = (UserJson (gpsDenyingUser\<lparr>privacyPreference := privacyPreference shortRetentionUser\<rparr>),
        invalidatedDb)
   \<and> db_evaluateHash invalidatedDb
     = [\<lparr> eh_userId = ''user3'', eh_hash = ''0f3a'', eh_result = ''deny'',
           eh_createdAt = Date 1500 \<rparr>]
   \<and> fst (postEvaluate exampleEnv (Some ''app2'') (Some ''user2'') (Date 2000) (Date 2001)
            invalidatedDb)
     \<noteq> EvaluateJson ''grant'' True"
proof -
  have put: "putPreferences ''user2'' (Some (privacyPreference shortRetentionUser)) cachedDb
     = (UserJson (gpsDenyingUser\<lparr>privacyPreference := privacyPreference shortRetentionUser\<rparr>),
        invalidatedDb)"
    by (simp add: putPreferences_def cachedDb_def invalidatedDb_def gpsDenyingUser_def
          deleteManyByUser_def)
  have c: "db_evaluateHash invalidatedDb
     = [\<lparr> eh_userId = ''user3'', eh_hash = ''0f3a'', eh_result = ''deny'',
           eh_createdAt = Date 1500 \<rparr>]"
    by (simp add: invalidatedDb_def)
  from preference_change_invalidates [OF put, where E = exampleEnv and appId = "Some ''app2''"
      and now = "Date 2000" and created = "Date 2001" and r = "''grant''"]
  have "fst (postEvaluate exampleEnv (Some ''app2'') (Some ''user2'') (Date 2000) (Date 2001)
               invalidatedDb)
     \<noteq> EvaluateJson ''grant'' True"
    by blast
  with put c show ?thesis by (intro conjI)
qed

section \<open>Properties of the fingerprint generator\<close>

lemma hexDigits_distinct: "distinct ''0123456789abcdef''"
  by simp

lemma hexDigit_mem: "hexDigit n \<in> set ''0123456789abcdef''"
  unfolding hexDigit_def by (rule nth_mem) simp

lemma hexDigit_inj: "m < 16 \<Longrightarrow> n < 16 \<Longrightarrow> hexDigit m = hexDigit n \<Longrightarrow> m = n"
  unfolding hexDigit_def
  using hexDigits_distinct by (simp add: nth_eq_iff_index_eq del: distinct.simps)

lemma length_digestHex: "length (digestHex w) = 64"
  by (simp add: digestHex_def)

lemma set_digestHex: "set (digestHex w) \<subseteq> set ''0123456789abcdef''"
  unfolding digestHex_def using hexDigit_mem by auto

lemma nibble_bit:
  fixes w :: "256 word"
  assumes "k < 4"
  shows "bit (unat (drop_bit (4 * j) w) mod 16) k = bit w (4 * j + k)"
proof -
  have "unat (drop_bit (4 * j) w) mod 16 = take_bit 4 (unat (drop_bit (4 * j) w))"
    by (simp add: take_bit_eq_mod)
  then show ?thesis
    using assms by (simp add: bit_take_bit_iff bit_unsigned_iff bit_drop_bit_eq)
qed

lemma digestHex_nth:
  "i < 64 \<Longrightarrow> digestHex w ! i = hexDigit (unat (drop_bit (4 * (63 - i)) w) mod 16)"
  by (simp add: digestHex_def)

lemma digestHex_inj:
  assumes "digestHex w = digestHex w'"
  shows "w = w'"
proof (rule bit_word_eqI)
  fix n assume "n < LENGTH(256)"
  then have n: "n < 256" by simp
  define j where "j = n div 4"
  define k where "k = n mod 4"
  have j: "j < 64" and k: "k < 4" and nk: "n = 4 * j + k"
    using n by (simp_all add: j_def k_def)
  have i: "63 - j < 64" and ij: "63 - (63 - j) = j" using j by simp_all
  from assms have "digestHex w ! (63 - j) = digestHex w' ! (63 - j)" by simp
  then have "hexDigit (unat (drop_bit (4 * j) w) mod 16)
           = hexDigit (unat (drop_bit (4 * j) w') mod 16)"
    by (simp add: digestHex_nth [OF i] ij)
  then have "unat (drop_bit (4 * j) w) mod 16 = unat (drop_bit (4 * j) w') mod 16"
    by (rule hexDigit_inj [rotated 2]) simp_all
  then have "bit (unat (drop_bit (4 * j) w) mod 16) k = bit (unat (drop_bit (4 * j) w') mod 16) k"
    by simp
  then show "bit w n = bit w' n"
    by (simp add: nibble_bit [OF k] nk)
qed

text \<open>
  Claim C7. \<open>sha256\<close> of some data is the digest \<open>H\<close> of that data, written as hexadecimal
  digits. The cache key of an (app, preference) pair is the digest of the text that joins,
  by \<open>-\<close>, the hexadecimal digests of the two serialized records, in hexadecimal. The digest
  has 256 bits, the joined text 129 characters, the key is always a string of 64
  hexadecimal digits, and two keys are equal exactly when the digests of the joined texts
  are equal.
\<close>

theorem fingerprint_shape:
  "sha256 H data = digestHex (H data)
   \<and> computeCacheKey H a p =
       digestHex (H (digestHex (H (JSON_stringify a)) @ ''-''
                       @ digestHex (H (JSON_stringify p))))
   \<and> length (digestHex (H (JSON_stringify a)) @ ''-'' @ digestHex (H (JSON_stringify p))) = 129
   \<and> length (computeCacheKey H a p) = 64
   \<and> set (computeCacheKey H a p) \<subseteq> set ''0123456789abcdef''
   \<and> ((computeCacheKey H a p = computeCacheKey H a' p') =
        (H (digestHex (H (JSON_stringify a)) @ ''-'' @ digestHex (H (JSON_stringify p)))
         = H (digestHex (H (JSON_stringify a')) @ ''-'' @ digestHex (H (JSON_stringify p')))))"
proof -
  have key: "computeCacheKey H x y =
       digestHex (H (digestHex (H (JSON_stringify x)) @ ''-''
                       @ digestHex (H (JSON_stringify y))))" for x y
    by (simp add: computeCacheKey_def sha256_def)
  have inj: "(digestHex v = digestHex w) = (v = w)" for v w
    using digestHex_inj [of v w] by blast
  have 1: "sha256 H data = digestHex (H data)"
    by (simp add: sha256_def)
  have 3: "length (digestHex (H (JSON_stringify a)) @ ''-''
                     @ digestHex (H (JSON_stringify p))) = 129"
    by (simp add: length_digestHex)
  have 4: "length (computeCacheKey H a p) = 64"
    by (simp add: key length_digestHex)
  have 5: "set (computeCacheKey H a p) \<subseteq> set ''0123456789abcdef''"
    unfolding key by (rule set_digestHex)
  have 6: "(computeCacheKey H a p = computeCacheKey H a' p') =
        (H (digestHex (H (JSON_stringify a)) @ ''-'' @ digestHex (H (JSON_stringify p)))
         = H (digestHex (H (JSON_stringify a')) @ ''-'' @ digestHex (H (JSON_stringify p'))))"
    unfolding key by (rule inj)
  from 1 key [of a p] 3 4 5 6 show ?thesis by (intro conjI)
qed

lemma hex_pair_inj:
  fixes c c' :: char
  assumes "hexDigit (of_char c div 16) = hexDigit (of_char c' div 16)"
    and "hexDigit (of_char c mod 16) = hexDigit (of_char c' mod 16)"
  shows "c = c'"
proof -
  have lt: "of_char x div 16 < (16::nat)" for x :: char
  proof -
    have "(of_char x :: nat) mod 256 < 256" by (rule mod_less_divisor) simp
    then have "(of_char x :: nat) < 256" by (simp only: of_char_mod_256)
    then show ?thesis by presburger
  qed
  have d: "(of_char c :: nat) div 16 = of_char c' div 16"
    by (rule hexDigit_inj [OF lt lt assms(1)])
  have m: "(of_char c :: nat) mod 16 = of_char c' mod 16"
    by (rule hexDigit_inj [OF _ _ assms(2)]) simp_all
  have "(of_char c :: nat) = of_char c'"
    using d m by (metis div_mult_mod_eq)
  then show ?thesis by simp
qed

lemma escapeChar_prefix:
  "escapeChar c @ r = escapeChar c' @ r' \<Longrightarrow> c = c' \<and> r = r'"
  unfolding escapeChar_def
  by (auto split: if_splits dest: hex_pair_inj)

lemma escapeChar_not_quote:
  "escapeChar c @ r \<noteq> CHR 0x22 # r'"
  unfolding escapeChar_def by (auto split: if_splits)

lemma hexDigit_digit: "n < 10 \<Longrightarrow> isDigit (hexDigit n)"
proof -
  assume "n < 10"
  then have "n \<in> {0,1,2,3,4,5,6,7,8,9}" by auto
  then show ?thesis by (auto simp: hexDigit_def isDigit_def)
qed

lemma digitsOf_digits: "\<forall>c \<in> set (digitsOf n). isDigit c"
proof (induction n rule: digitsOf.induct)
  case (1 n)
  show ?case
  proof (cases "n < 10")
    case True
    then show ?thesis by (subst digitsOf.simps) (simp add: hexDigit_digit)
  next
    case False
    with 1 show ?thesis by (subst digitsOf.simps) (simp add: hexDigit_digit)
  qed
qed

lemma digitsOf_nonempty: "digitsOf n \<noteq> []"
  by (subst digitsOf.simps) simp

lemma digitsOf_length: "length (digitsOf n) = 1 \<longleftrightarrow> n < 10"
proof (cases "n < 10")
  case True
  then show ?thesis by (subst digitsOf.simps) simp
next
  case False
  have "digitsOf (n div 10) \<noteq> []" by (rule digitsOf_nonempty)
  then have "length (digitsOf (n div 10)) \<noteq> 0" by simp
  with False show ?thesis by (subst digitsOf.simps) simp
qed

lemma digitsOf_inj: "digitsOf n = digitsOf m \<Longrightarrow> n = m"
proof (induction n arbitrary: m rule: digitsOf.induct)
  case (1 n)
  show ?case
  proof (cases "n < 10")
    case True
    with "1.prems" have m: "m < 10" using digitsOf_length [of n] digitsOf_length [of m] by simp
    from "1.prems" True m have "hexDigit n = hexDigit m"
      by (simp add: digitsOf.simps [of n] digitsOf.simps [of m])
    with True m show ?thesis by (auto dest: hexDigit_inj [rotated 2])
  next
    case False
    with "1.prems" have m: "\<not> m < 10" using digitsOf_length [of n] digitsOf_length [of m] by simp
    from "1.prems" False m have e: "digitsOf (n div 10) = digitsOf (m div 10)"
        "hexDigit (n mod 10) = hexDigit (m mod 10)"
      by (simp_all add: digitsOf.simps [of n] digitsOf.simps [of m])
    from "1.IH" [OF False e(1)] have d: "n div 10 = m div 10" .
    have "n mod 10 = m mod 10"
      by (rule hexDigit_inj [OF _ _ e(2)]) simp_all
    with d show ?thesis by (metis div_mult_mod_eq)
  qed
qed

lemma digit_prefix_unique:
  assumes "\<forall>c \<in> set xs. isDigit c" "\<forall>c \<in> set ys. isDigit c"
    and "\<not> startsWithDigit r" "\<not> startsWithDigit r'"
    and "xs @ r = ys @ r'"
  shows "xs = ys \<and> r = r'"
  using assms
proof (induction xs arbitrary: ys)
  case Nil
  then show ?case by (cases ys) (auto simp: startsWithDigit_def)
next
  case (Cons x xs)
  then show ?case by (cases ys) (auto simp: startsWithDigit_def)
qed

lemma numberToString_prefix:
  assumes "\<not> startsWithDigit r" "\<not> startsWithDigit r'"
    and "numberToString i @ r = numberToString j @ r'"
  shows "i = j \<and> r = r'"
proof -
  have nd: "\<not> isDigit (CHR ''-'')" by (simp add: isDigit_def)
  have hdd: "isDigit (hd (digitsOf n))" for n
    using digitsOf_digits [of n] digitsOf_nonempty [of n] by (cases "digitsOf n") auto
  have cons: "digitsOf n = hd (digitsOf n) # tl (digitsOf n)" for n
    using digitsOf_nonempty [of n] by simp
  show ?thesis
  proof (cases "i < 0")
    case True
    show ?thesis
    proof (cases "j < 0")
      case j: True
      from assms(3) True j have "digitsOf (nat (- i)) @ r = digitsOf (nat (- j)) @ r'"
        by (simp add: numberToString_def)
      from digit_prefix_unique [OF digitsOf_digits digitsOf_digits assms(1,2) this]
      have "nat (- i) = nat (- j)" and "r = r'" by (auto dest: digitsOf_inj)
      with True j show ?thesis by simp
    next
      case j: False
      from assms(3) True j have "CHR ''-'' # digitsOf (nat (- i)) @ r = digitsOf (nat j) @ r'"
        by (simp add: numberToString_def)
      then have "CHR ''-'' = hd (digitsOf (nat j))"
        by (subst (asm) cons [of "nat j"]) simp
      with hdd [of "nat j"] nd show ?thesis by simp
    qed
  next
    case False
    show ?thesis
    proof (cases "j < 0")
      case j: True
      from assms(3) False j have "digitsOf (nat i) @ r = CHR ''-'' # digitsOf (nat (- j)) @ r'"
        by (simp add: numberToString_def)
      then have "hd (digitsOf (nat i)) = CHR ''-''"
        by (subst (asm) cons [of "nat i"]) simp
      with hdd [of "nat i"] nd show ?thesis by simp
    next
      case j: False
      from assms(3) False j have "digitsOf (nat i) @ r = digitsOf (nat j) @ r'"
        by (simp add: numberToString_def)
      from digit_prefix_unique [OF digitsOf_digits digitsOf_digits assms(1,2) this]
      have "nat i = nat j" and "r = r'" by (auto dest: digitsOf_inj)
      with False j show ?thesis by simp
    qed
  qed
qed

lemma escape_body_prefix:
  "concat (map escapeChar s) @ CHR 0x22 # r = concat (map escapeChar s') @ CHR 0x22 # r'
     \<Longrightarrow> s = s' \<and> r = r'"
proof (induction s arbitrary: s')
  case Nil
  show ?case
  proof (cases s')
    case Nil
    with Nil.prems show ?thesis by simp
  next
    case (Cons c cs)
    with Nil.prems have "escapeChar c @ (concat (map escapeChar cs) @ CHR 0x22 # r') = CHR 0x22 # r"
      by simp
    with escapeChar_not_quote show ?thesis by blast
  qed
next
  case (Cons c cs)
  show ?case
  proof (cases s')
    case Nil
    with Cons.prems have "escapeChar c @ (concat (map escapeChar cs) @ CHR 0x22 # r) = CHR 0x22 # r'"
      by simp
    with escapeChar_not_quote show ?thesis by blast
  next
    case c': (Cons c' cs')
    with Cons.prems have "escapeChar c @ (concat (map escapeChar cs) @ CHR 0x22 # r)
        = escapeChar c' @ (concat (map escapeChar cs') @ CHR 0x22 # r')"
      by simp
    from escapeChar_prefix [OF this]
    have "c = c'" and "concat (map escapeChar cs) @ CHR 0x22 # r
        = concat (map escapeChar cs') @ CHR 0x22 # r'"
      by simp_all
    with Cons.IH [of cs'] c' show ?thesis by simp
  qed
qed

lemma quote_prefix:
  "quoteJSONString s @ r = quoteJSONString s' @ r' \<Longrightarrow> s = s' \<and> r = r'"
  unfolding quoteJSONString_def by (rule escape_body_prefix) simp

lemma okRest_no_digit: "okRest r \<Longrightarrow> \<not> startsWithDigit r"
  by (cases r) (auto simp: okRest_def startsWithDigit_def isDigit_def)

lemma tagOf_digit: "isDigit c \<Longrightarrow> tagOf c = 2"
  by (auto simp: tagOf_def isDigit_def)

lemma numberToString_hd: "\<exists>c cs. numberToString i = c # cs \<and> tagOf c = 2"
proof -
  have "\<exists>c cs. digitsOf n = c # cs \<and> tagOf c = 2" for n
    using digitsOf_digits [of n] digitsOf_nonempty [of n]
    by (cases "digitsOf n") (auto simp: tagOf_digit)
  then show ?thesis
    by (auto simp: numberToString_def tagOf_def isDigit_def)
qed

lemma stringify_hd: "\<exists>c cs. JSON_stringify v = c # cs \<and> tagOf c = ctor v"
proof (cases v)
  case (JNum i)
  with numberToString_hd [of i] show ?thesis by simp
qed (auto simp: tagOf_def isDigit_def quoteJSONString_def)

lemma stringify_ctor:
  assumes "JSON_stringify v @ r = JSON_stringify v' @ r'"
  shows "ctor v = ctor v'"
proof -
  from stringify_hd [of v] obtain c cs where 1: "JSON_stringify v = c # cs" "tagOf c = ctor v"
    by blast
  from stringify_hd [of v'] obtain c' cs' where 2: "JSON_stringify v' = c' # cs'" "tagOf c' = ctor v'"
    by blast
  from assms 1 2 show ?thesis by simp
qed

lemma stringify_not_closing:
  "JSON_stringify v @ r \<noteq> c # r'" if "tagOf c = 6"
proof -
  from stringify_hd [of v] obtain d ds where 1: "JSON_stringify v = d # ds" "tagOf d = ctor v"
    by blast
  have "ctor v \<noteq> 6" by (cases v) simp_all
  with 1 that show ?thesis by auto
qed

lemma joinWith_Cons:
  "joinWith sep (x # xs) = x @ (if xs = [] then [] else sep @ joinWith sep xs)"
  by (cases xs) simp_all

lemma closing_tags: "tagOf (CHR '']'') = 6" "tagOf (CHR ''}'') = 6" "tagOf (CHR '','') = 6"
  by (simp_all add: tagOf_def isDigit_def)

lemma array_body_prefix:
  assumes IH: "\<And>x v' r r'. x \<in> set vs \<Longrightarrow> okRest r \<Longrightarrow> okRest r'
                 \<Longrightarrow> JSON_stringify x @ r = JSON_stringify v' @ r' \<Longrightarrow> x = v' \<and> r = r'"
    and eq: "joinWith '','' (map JSON_stringify vs) @ CHR '']'' # r
           = joinWith '','' (map JSON_stringify vs') @ CHR '']'' # r'"
  shows "vs = vs' \<and> r = r'"
  using assms
proof (induction vs arbitrary: vs')
  case Nil
  show ?case
  proof (cases vs')
    case Nil
    with Nil.prems(2) show ?thesis by simp
  next
    case (Cons x' xs')
    with Nil.prems(2) have "JSON_stringify x' @
         ((if xs' = [] then [] else '','' @ joinWith '','' (map JSON_stringify xs')) @ CHR '']'' # r')
         = CHR '']'' # r"
      by (simp add: joinWith_Cons)
    with stringify_not_closing [OF closing_tags(1)] show ?thesis by blast
  qed
next
  case (Cons x xs)
  let ?tl = "\<lambda>ys s. (if ys = [] then [] else '','' @ joinWith '','' (map JSON_stringify ys))
                      @ CHR '']'' # s"
  have okL: "okRest (?tl xs r)" and okR: "okRest (?tl ys r')" for ys
    by (simp_all add: okRest_def)
  show ?case
  proof (cases vs')
    case Nil
    with Cons.prems(2) have "JSON_stringify x @ ?tl xs r = CHR '']'' # r'"
      by (simp add: joinWith_Cons)
    with stringify_not_closing [OF closing_tags(1)] show ?thesis by blast
  next
    case c': (Cons x' xs')
    with Cons.prems(2) have "JSON_stringify x @ ?tl xs r = JSON_stringify x' @ ?tl xs' r'"
      by (simp add: joinWith_Cons split del: if_split)
    from Cons.prems(1) [OF _ okL okR this]
    have x: "x = x'" and t: "?tl xs r = ?tl xs' r'" by simp_all
    have "xs = xs' \<and> r = r'"
    proof (cases "xs = []")
      case True
      with t show ?thesis by (cases "xs' = []") simp_all
    next
      case False
      with t have ne: "xs' \<noteq> []" by (cases "xs' = []") simp_all
      with t False have eq': "joinWith '','' (map JSON_stringify xs) @ CHR '']'' # r
           = joinWith '','' (map JSON_stringify xs') @ CHR '']'' # r'"
        by simp
      have sub: "y = w \<and> s = s'"
        if "y \<in> set xs" "okRest s" "okRest s'" "JSON_stringify y @ s = JSON_stringify w @ s'"
        for y w s s'
        by (rule Cons.prems(1) [OF _ that(2-4)]) (simp add: that(1))
      from Cons.IH [OF sub eq'] show ?thesis .
    qed
    with x c' show ?thesis by simp
  qed
qed

lemma object_body_prefix:
  assumes IH: "\<And>k x v' r r'. (k, x) \<in> set kvs \<Longrightarrow> okRest r \<Longrightarrow> okRest r'
                 \<Longrightarrow> JSON_stringify x @ r = JSON_stringify v' @ r' \<Longrightarrow> x = v' \<and> r = r'"
    and eq: "joinWith '','' (map member kvs) @ CHR ''}'' # r
           = joinWith '','' (map member kvs') @ CHR ''}'' # r'"
  shows "kvs = kvs' \<and> r = r'"
  using assms
proof (induction kvs arbitrary: kvs')
  case Nil
  show ?case
  proof (cases kvs')
    case Nil
    with Nil.prems(2) show ?thesis by simp
  next
    case (Cons e' es')
    obtain k' v' where e': "e' = (k', v')" by (cases e')
    with Cons Nil.prems(2) show ?thesis
      by (simp add: joinWith_Cons quoteJSONString_def)
  qed
next
  case (Cons e es)
  obtain k v where e: "e = (k, v)" by (cases e)
  let ?tl = "\<lambda>ys s. (if ys = [] then [] else '','' @ joinWith '','' (map member ys))
                      @ CHR ''}'' # s"
  have okL: "okRest (?tl es r)" and okR: "okRest (?tl ys r')" for ys
    by (simp_all add: okRest_def)
  show ?case
  proof (cases kvs')
    case Nil
    with e Cons.prems(2) show ?thesis
      by (simp add: joinWith_Cons quoteJSONString_def)
  next
    case c': (Cons e' es')
    obtain k' v' where e': "e' = (k', v')" by (cases e')
    from c' e e' Cons.prems(2)
    have "quoteJSONString k @ (CHR '':'' # JSON_stringify v @ ?tl es r)
        = quoteJSONString k' @ (CHR '':'' # JSON_stringify v' @ ?tl es' r')"
      by (simp add: joinWith_Cons split del: if_split)
    from quote_prefix [OF this]
    have k: "k = k'" and "JSON_stringify v @ ?tl es r = JSON_stringify v' @ ?tl es' r'"
      by simp_all
    from Cons.prems(1) [OF _ okL okR this(2), of k] e
    have v: "v = v'" and t: "?tl es r = ?tl es' r'" by simp_all
    have "es = es' \<and> r = r'"
    proof (cases "es = []")
      case True
      with t show ?thesis by (cases "es' = []") simp_all
    next
      case False
      with t have ne: "es' \<noteq> []" by (cases "es' = []") simp_all
      with t False have eq': "joinWith '','' (map member es) @ CHR ''}'' # r
           = joinWith '','' (map member es') @ CHR ''}'' # r'"
        by simp
      have sub: "y = w \<and> s = s'"
        if "(a, y) \<in> set es" "okRest s" "okRest s'" "JSON_stringify y @ s = JSON_stringify w @ s'"
        for a y w s s'
        by (rule Cons.prems(1) [OF _ that(2-4), of a]) (simp add: that(1))
      from Cons.IH [OF sub eq'] show ?thesis .
    qed
    with k v e e' c' show ?thesis by simp
  qed
qed

lemma stringify_prefix:
  "okRest r \<Longrightarrow> okRest r' \<Longrightarrow> JSON_stringify v @ r = JSON_stringify v' @ r'
     \<Longrightarrow> v = v' \<and> r = r'"
proof (induction v arbitrary: v' r r')
  case JNull
  from stringify_ctor [OF JNull.prems(3)] obtain "v' = JNull" by (cases v') simp_all
  with JNull.prems(3) show ?case by simp
next
  case (JBool b)
  from stringify_ctor [OF JBool.prems(3)] obtain b' where "v' = JBool b'" by (cases v') simp_all
  with JBool.prems(3) show ?case by (cases b; cases b') simp_all
next
  case (JNum i)
  from stringify_ctor [OF JNum.prems(3)] obtain j where "v' = JNum j" by (cases v') simp_all
  with JNum.prems numberToString_prefix [of r r' i j] show ?case
    by (simp add: okRest_no_digit)
next
  case (JStr s)
  from stringify_ctor [OF JStr.prems(3)] obtain s' where "v' = JStr s'" by (cases v') simp_all
  with JStr.prems(3) quote_prefix [of s r s' r'] show ?case by simp
next
  case (JArr vs)
  from stringify_ctor [OF JArr.prems(3)] obtain vs' where v': "v' = JArr vs'"
    by (cases v') simp_all
  with JArr.prems(3) have "joinWith '','' (map JSON_stringify vs) @ CHR '']'' # r
           = joinWith '','' (map JSON_stringify vs') @ CHR '']'' # r'"
    by simp
  from array_body_prefix [OF _ this] JArr.IH v' show ?case by blast
next
  case (JObj kvs)
  from stringify_ctor [OF JObj.prems(3)] obtain kvs' where v': "v' = JObj kvs'"
    by (cases v') simp_all
  with JObj.prems(3) have eq: "joinWith '','' (map member kvs) @ CHR ''}'' # r
           = joinWith '','' (map member kvs') @ CHR ''}'' # r'"
    by simp
  have "kvs = kvs' \<and> r = r'"
  proof (rule object_body_prefix [OF _ eq])
    fix k x w s s'
    assume m: "(k, x) \<in> set kvs" and ok: "okRest s" "okRest s'"
      and e: "JSON_stringify x @ s = JSON_stringify w @ s'"
    have "x \<in> Basic_BNFs.snds (k, x)" by simp
    from JObj.IH [OF m this ok e] show "x = w \<and> s = s'" .
  qed
  with v' show ?case by simp
qed

theorem JSON_stringify_inj: "JSON_stringify v = JSON_stringify v' \<Longrightarrow> v = v'"
  using stringify_prefix [of "[]" "[]" v v'] by (simp add: okRest_def)

lemma digitsOf_1800: "digitsOf 1800 = ''1800''"
  by (simp add: digitsOf.simps hexDigit_def)

text \<open>
  Claim C8, as the specification states it, fails: the two records below have the same
  fields with the same values, in different orders, and their serializations differ.
\<close>

theorem field_order_changes_serialization:
  \<open>sameFields appNameFirst appRetentionFirst
   \<and> JSON_stringify appNameFirst = ''{"name":"Test App 0","timeofRetention":1800}''
   \<and> JSON_stringify appRetentionFirst = ''{"timeofRetention":1800,"name":"Test App 0"}''
   \<and> JSON_stringify appNameFirst \<noteq> JSON_stringify appRetentionFirst\<close>
  by (simp add: appNameFirst_def appRetentionFirst_def quoteJSONString_def escapeChar_def
        numberToString_def digitsOf_1800)

lemma sha256_inj: "sha256 H x = sha256 H y \<Longrightarrow> H x = H y"
  unfolding sha256_def by (rule digestHex_inj)

lemma length_sha256: "length (sha256 H x) = 64"
  by (simp add: sha256_def length_digestHex)

text \<open>
  Claim C8 (amended). The serialization is \<open>JSON.stringify\<close>, which writes the fields in the
  record's own order, and it is injective: two records have the same serialization only if
  they list the same fields in the same order with equal values. Records that are equal in
  this sense get the same cache key; two pairs of records get the same cache key only if
  they are equal or SHA-256 collides on their serializations or on the joined digests.
\<close>

theorem serialization_injective:
  "(JSON_stringify a = JSON_stringify a' \<longleftrightarrow> a = a')
   \<and> (kvs \<noteq> kvs' \<longrightarrow> JSON_stringify (JObj kvs) \<noteq> JSON_stringify (JObj kvs'))
   \<and> (a = a' \<and> p = p' \<longrightarrow> computeCacheKey H a p = computeCacheKey H a' p')
   \<and> (computeCacheKey H a p = computeCacheKey H a' p' \<longrightarrow>
        (a = a' \<and> p = p')
        \<or> (JSON_stringify a \<noteq> JSON_stringify a' \<and> H (JSON_stringify a) = H (JSON_stringify a'))
        \<or> (JSON_stringify p \<noteq> JSON_stringify p' \<and> H (JSON_stringify p) = H (JSON_stringify p'))
        \<or> (sha256 H (JSON_stringify a) @ ''-'' @ sha256 H (JSON_stringify p)
              \<noteq> sha256 H (JSON_stringify a') @ ''-'' @ sha256 H (JSON_stringify p')
            \<and> H (sha256 H (JSON_stringify a) @ ''-'' @ sha256 H (JSON_stringify p))
              = H (sha256 H (JSON_stringify a') @ ''-'' @ sha256 H (JSON_stringify p'))))"
proof -
  have inj: "JSON_stringify x = JSON_stringify y \<longleftrightarrow> x = y" for x y
    using JSON_stringify_inj by blast
  have obj: "kvs \<noteq> kvs' \<longrightarrow> JSON_stringify (JObj kvs) \<noteq> JSON_stringify (JObj kvs')"
    using inj [of "JObj kvs" "JObj kvs'"] by simp
  have key: "(a = a' \<and> p = p')
        \<or> (JSON_stringify a \<noteq> JSON_stringify a' \<and> H (JSON_stringify a) = H (JSON_stringify a'))
        \<or> (JSON_stringify p \<noteq> JSON_stringify p' \<and> H (JSON_stringify p) = H (JSON_stringify p'))
        \<or> (sha256 H (JSON_stringify a) @ ''-'' @ sha256 H (JSON_stringify p)
              \<noteq> sha256 H (JSON_stringify a') @ ''-'' @ sha256 H (JSON_stringify p')
            \<and> H (sha256 H (JSON_stringify a) @ ''-'' @ sha256 H (JSON_stringify p))
              = H (sha256 H (JSON_stringify a') @ ''-'' @ sha256 H (JSON_stringify p')))"
    if eq: "computeCacheKey H a p = computeCacheKey H a' p'"
  proof (cases "sha256 H (JSON_stringify a) @ ''-'' @ sha256 H (JSON_stringify p)
              = sha256 H (JSON_stringify a') @ ''-'' @ sha256 H (JSON_stringify p')")
    case False
    from eq have "H (sha256 H (JSON_stringify a) @ ''-'' @ sha256 H (JSON_stringify p))
              = H (sha256 H (JSON_stringify a') @ ''-'' @ sha256 H (JSON_stringify p'))"
      unfolding computeCacheKey_def by (rule sha256_inj)
    with False show ?thesis by blast
  next
    case True
    then have "sha256 H (JSON_stringify a) = sha256 H (JSON_stringify a')"
      and "sha256 H (JSON_stringify p) = sha256 H (JSON_stringify p')"
      by (simp_all add: length_sha256)
    then have "H (JSON_stringify a) = H (JSON_stringify a')"
      and "H (JSON_stringify p) = H (JSON_stringify p')"
      by (auto dest: sha256_inj)
    then show ?thesis using inj [of a a'] inj [of p p'] by blast
  qed
  from inj [of a a'] obj key show ?thesis by blast
qed

theorem serialization_injective_witness:
  "appNameFirst \<noteq> appRetentionFirst
   \<and> JSON_stringify appNameFirst \<noteq> JSON_stringify appRetentionFirst"
proof -
  have ne: "[(''name'', JStr ''Test App 0''), (''timeofRetention'', JNum 1800)]
          \<noteq> [(''timeofRetention'', JNum 1800), (''name'', JStr ''Test App 0'')]"
    by simp
  from serialization_injective [of appNameFirst appNameFirst
         "[(''name'', JStr ''Test App 0''), (''timeofRetention'', JNum 1800)]"
         "[(''timeofRetention'', JNum 1800), (''name'', JStr ''Test App 0'')]"
         JNull JNull "\<lambda>s. word_of_nat (length s)"] ne
  show ?thesis
    by (simp add: appNameFirst_def appRetentionFirst_def)
qed

section \<open>Properties of the nested-set query\<close>

lemma quickTest_numbering:
  "fst (numberForest 1 quickTestForest) = policy_attributes quickTestPolicy"
  by (simp add: quickTestForest_def quickTestPolicy_def)

lemma numbering_bounds:
  "n < snd (numberTree n t)
     \<and> (\<forall>x \<in> set (fst (numberTree n t)).
           n \<le> left x \<and> left x < right x \<and> right x < snd (numberTree n t))"
  "n \<le> snd (numberForest n ts)
     \<and> (\<forall>x \<in> set (fst (numberForest n ts)).
           n \<le> left x \<and> left x < right x \<and> right x < snd (numberForest n ts))"
proof (induction n t and n ts rule: numberTree_numberForest.induct)
  case (1 n i nm cs)
  then show ?case by (fastforce split: prod.splits)
next
  case (2 n)
  show ?case by simp
next
  case (3 n t ts)
  obtain ns m where t: "numberTree n t = (ns, m)" by (cases "numberTree n t")
  obtain ns' m' where ts: "numberForest m ts = (ns', m')" by (cases "numberForest m ts")
  from "3.IH"(1) t have 1: "n < m" "\<forall>x \<in> set ns. n \<le> left x \<and> left x < right x \<and> right x < m"
    by simp_all
  from "3.IH"(2) [OF t [symmetric]] ts t
  have 2: "m \<le> m'" "\<forall>x \<in> set ns'. m \<le> left x \<and> left x < right x \<and> right x < m'"
    by simp_all
  from 1 2 show ?case by (fastforce simp: t ts)
qed

lemma numbering_ids:
  "map node_id (fst (numberTree n t)) = idsOf t"
  "map node_id (fst (numberForest n ts)) = idsOfAll ts"
  by (induction n t and n ts rule: numberTree_numberForest.induct)
     (auto split: prod.splits)

lemma subtreeIds_subset:
  "set (subtreeIds a t) \<subseteq> set (idsOf t)"
  "set (subtreeIdsAll a ts) \<subseteq> set (idsOfAll ts)"
  by (induction a t and a ts rule: subtreeIds_subtreeIdsAll.induct) auto

lemma subtreeIds_absent:
  "a \<notin> set (idsOf t) \<Longrightarrow> subtreeIds a t = []"
  "a \<notin> set (idsOfAll ts) \<Longrightarrow> subtreeIdsAll a ts = []"
  by (induction a t and a ts rule: subtreeIds_subtreeIdsAll.induct) auto

lemma node_id_mem:
  "x \<in> set (fst (numberTree n t)) \<Longrightarrow> node_id x \<in> set (idsOf t)"
  "y \<in> set (fst (numberForest n ts)) \<Longrightarrow> node_id y \<in> set (idsOfAll ts)"
  using numbering_ids(1) [of n t] numbering_ids(2) [of n ts]
  by (metis image_eqI set_map)+

lemma containment_iff_subtree:
  "distinct (idsOf t) \<Longrightarrow> x \<in> set (fst (numberTree n t)) \<Longrightarrow> y \<in> set (fst (numberTree n t))
     \<Longrightarrow> (left x \<le> left y \<and> right y \<le> right x)
          = (node_id y \<in> set (subtreeIds (node_id x) t))"
  "distinct (idsOfAll ts) \<Longrightarrow> x \<in> set (fst (numberForest n ts))
     \<Longrightarrow> y \<in> set (fst (numberForest n ts))
     \<Longrightarrow> (left x \<le> left y \<and> right y \<le> right x)
          = (node_id y \<in> set (subtreeIdsAll (node_id x) ts))"
proof (induction n t and n ts arbitrary: x y and x y rule: numberTree_numberForest.induct)
  case (1 n i nm cs)
  obtain ns m where f: "numberForest (n + 1) cs = (ns, m)"
    by (cases "numberForest (n + 1) cs")
  define root where "root = \<lparr> node_id = i, node_name = nm, left = n, right = m \<rparr>"
  have nodes: "fst (numberTree n (Taxon i nm cs)) = root # ns"
    by (simp add: f root_def)
  from numbering_bounds(2) [of "n + 1" cs] f
  have b: "\<And>z. z \<in> set ns \<Longrightarrow> n + 1 \<le> left z \<and> left z < right z \<and> right z < m"
    by simp
  from node_id_mem(2) [of _ "n + 1" cs] f
  have ids: "\<And>z. z \<in> set ns \<Longrightarrow> node_id z \<in> set (idsOfAll cs)"
    by simp
  from "1.prems"(1) have d: "i \<notin> set (idsOfAll cs)" "distinct (idsOfAll cs)"
    by simp_all
  from "1.prems"(2,3) nodes have xy: "x = root \<or> x \<in> set ns" "y = root \<or> y \<in> set ns"
    by simp_all
  show ?case
  proof (cases "x = root")
    case xr: True
    show ?thesis
    proof (cases "y = root")
      case True
      with xr show ?thesis by (simp add: root_def)
    next
      case False
      with xy have y: "y \<in> set ns" by simp
      from b [OF y] ids [OF y] xr show ?thesis by (simp add: root_def)
    qed
  next
    case xn: False
    with xy have x: "x \<in> set ns" by simp
    from ids [OF x] d(1) have xi: "i \<noteq> node_id x" by auto
    show ?thesis
    proof (cases "y = root")
      case True
      from subtreeIds_subset(2) [of "node_id x" cs] d(1)
      have "i \<notin> set (subtreeIdsAll (node_id x) cs)" by auto
      with b [OF x] True xi show ?thesis by (simp add: root_def)
    next
      case False
      with xy have y: "y \<in> set ns" by simp
      from "1.IH" [OF d(2)] x y f
      have "(left x \<le> left y \<and> right y \<le> right x)
          = (node_id y \<in> set (subtreeIdsAll (node_id x) cs))"
        by simp
      with xi show ?thesis by simp
    qed
  qed
next
  case (2 n)
  then show ?case by simp
next
  case (3 n t ts)
  obtain ns m where t: "numberTree n t = (ns, m)" by (cases "numberTree n t")
  obtain ns' m' where ts: "numberForest m ts = (ns', m')" by (cases "numberForest m ts")
  have nodes: "fst (numberForest n (t # ts)) = ns @ ns'"
    by (simp add: t ts)
  from numbering_bounds(1) [of n t] t
  have b1: "\<And>z. z \<in> set ns \<Longrightarrow> n \<le> left z \<and> left z < right z \<and> right z < m"
    by simp
  from numbering_bounds(2) [of m ts] ts
  have b2: "\<And>z. z \<in> set ns' \<Longrightarrow> m \<le> left z \<and> left z < right z \<and> right z < m'"
    by simp
  from node_id_mem(1) [of _ n t] t
  have id1: "\<And>z. z \<in> set ns \<Longrightarrow> node_id z \<in> set (idsOf t)" by simp
  from node_id_mem(2) [of _ m ts] ts
  have id2: "\<And>z. z \<in> set ns' \<Longrightarrow> node_id z \<in> set (idsOfAll ts)" by simp
  from "3.prems"(1) have d: "distinct (idsOf t)" "distinct (idsOfAll ts)"
    "set (idsOf t) \<inter> set (idsOfAll ts) = {}"
    by simp_all
  from "3.prems"(2,3) nodes have xy: "x \<in> set ns \<or> x \<in> set ns'" "y \<in> set ns \<or> y \<in> set ns'"
    by simp_all
  show ?case
  proof (cases "x \<in> set ns")
    case x: True
    from id1 [OF x] d(3) have "node_id x \<notin> set (idsOfAll ts)" by auto
    then have e: "subtreeIdsAll (node_id x) ts = []" by (rule subtreeIds_absent(2))
    show ?thesis
    proof (cases "y \<in> set ns")
      case y: True
      from "3.IH"(1) [OF d(1)] x y t
      have "(left x \<le> left y \<and> right y \<le> right x)
          = (node_id y \<in> set (subtreeIds (node_id x) t))"
        by simp
      with e show ?thesis by simp
    next
      case False
      with xy have y: "y \<in> set ns'" by simp
      from id2 [OF y] d(3) have "node_id y \<notin> set (idsOf t)" by auto
      with subtreeIds_subset(1) [of "node_id x" t]
      have "node_id y \<notin> set (subtreeIds (node_id x) t)" by auto
      with b1 [OF x] b2 [OF y] e show ?thesis by simp
    qed
  next
    case False
    with xy have x: "x \<in> set ns'" by simp
    from id2 [OF x] d(3) have "node_id x \<notin> set (idsOf t)" by auto
    then have e: "subtreeIds (node_id x) t = []" by (rule subtreeIds_absent(1))
    show ?thesis
    proof (cases "y \<in> set ns")
      case y: True
      from id1 [OF y] d(3) have "node_id y \<notin> set (idsOfAll ts)" by auto
      with subtreeIds_subset(2) [of "node_id x" ts]
      have "node_id y \<notin> set (subtreeIdsAll (node_id x) ts)" by auto
      with b1 [OF y] b2 [OF x] e show ?thesis by simp
    next
      case False
      with xy have y: "y \<in> set ns'" by simp
      from "3.IH"(2) [OF t [symmetric] d(2)] x y ts t
      have "(left x \<le> left y \<and> right y \<le> right x)
          = (node_id y \<in> set (subtreeIdsAll (node_id x) ts))"
        by simp
      with e show ?thesis by simp
    qed
  qed
qed

lemma member_ids: "t \<in> set ts \<Longrightarrow> set (idsOf t) \<subseteq> set (idsOfAll ts)"
  by (induction ts) auto

lemma sibling_ids:
  "sib \<in> set (siblingLists t) \<Longrightarrow> set (idsOfAll sib) \<subseteq> set (idsOf t)"
  "sib \<in> set (siblingListsAll ts) \<Longrightarrow> set (idsOfAll sib) \<subseteq> set (idsOfAll ts)"
  by (induction t and ts rule: siblingLists_siblingListsAll.induct) auto

lemma sibling_distinct:
  "distinct (idsOf t) \<Longrightarrow> sib \<in> set (siblingLists t) \<Longrightarrow> distinct (idsOfAll sib)"
  "distinct (idsOfAll ts) \<Longrightarrow> sib \<in> set (siblingListsAll ts) \<Longrightarrow> distinct (idsOfAll sib)"
  by (induction t and ts rule: siblingLists_siblingListsAll.induct) auto

lemma siblings_disjoint:
  "distinct (idsOfAll sib) \<Longrightarrow> t1 \<in> set sib \<Longrightarrow> t2 \<in> set sib \<Longrightarrow> t1 \<noteq> t2
     \<Longrightarrow> set (idsOf t1) \<inter> set (idsOf t2) = {}"
proof (induction sib)
  case Nil
  then show ?case by simp
next
  case (Cons t sib)
  from Cons.prems(1) have d: "distinct (idsOfAll sib)" "set (idsOf t) \<inter> set (idsOfAll sib) = {}"
    by simp_all
  show ?case
  proof (cases "t1 = t")
    case True
    with Cons.prems have "t2 \<in> set sib" by auto
    from member_ids [OF this] d(2) True show ?thesis by auto
  next
    case False
    with Cons.prems have t1: "t1 \<in> set sib" by auto
    show ?thesis
    proof (cases "t2 = t")
      case True
      from member_ids [OF t1] d(2) True show ?thesis by auto
    next
      case False
      with Cons.prems have "t2 \<in> set sib" by auto
      from Cons.IH [OF d(1) t1 this Cons.prems(4)] show ?thesis .
    qed
  qed
qed

lemma subtree_within_sibling:
  "distinct (idsOf t) \<Longrightarrow> sib \<in> set (siblingLists t) \<Longrightarrow> t1 \<in> set sib
     \<Longrightarrow> a \<in> set (idsOf t1) \<Longrightarrow> set (subtreeIds a t) \<subseteq> set (idsOf t1)"
  "distinct (idsOfAll ts) \<Longrightarrow> sib \<in> set (ts # siblingListsAll ts) \<Longrightarrow> t1 \<in> set sib
     \<Longrightarrow> a \<in> set (idsOf t1) \<Longrightarrow> set (subtreeIdsAll a ts) \<subseteq> set (idsOf t1)"
proof (induction t and ts arbitrary: sib and sib rule: siblingLists_siblingListsAll.induct)
  case (1 i nm cs)
  from "1.prems"(2) have s: "sib \<in> set (cs # siblingListsAll cs)" by simp
  then have "set (idsOfAll sib) \<subseteq> set (idsOfAll cs)"
    using sibling_ids(2) [of sib cs] by auto
  with member_ids [OF "1.prems"(3)] "1.prems"(4) have "a \<in> set (idsOfAll cs)" by auto
  with "1.prems"(1) have ne: "i \<noteq> a" by auto
  from "1.prems"(1) have "distinct (idsOfAll cs)" by simp
  from "1.IH" [OF this s "1.prems"(3,4)] ne show ?case by simp
next
  case 2
  then show ?case by simp
next
  case (3 t ts)
  from "3.prems"(1) have d: "distinct (idsOf t)" "distinct (idsOfAll ts)"
    "set (idsOf t) \<inter> set (idsOfAll ts) = {}"
    by simp_all
  from "3.prems"(2) consider (top) "sib = t # ts" | (left) "sib \<in> set (siblingLists t)"
    | (rest) "sib \<in> set (siblingListsAll ts)"
    by auto
  then show ?case
  proof cases
    case top
    show ?thesis
    proof (cases "t1 = t")
      case True
      with "3.prems"(4) d(3) have "a \<notin> set (idsOfAll ts)" by auto
      then have "subtreeIdsAll a ts = []" by (rule subtreeIds_absent(2))
      with subtreeIds_subset(1) [of a t] True show ?thesis by simp
    next
      case False
      with top "3.prems"(3) have t1: "t1 \<in> set ts" by simp
      with member_ids [OF t1] "3.prems"(4) d(3) have "a \<notin> set (idsOf t)" by auto
      then have e: "subtreeIds a t = []" by (rule subtreeIds_absent(1))
      have "ts \<in> set (ts # siblingListsAll ts)" by simp
      from "3.IH"(2) [OF d(2) this t1 "3.prems"(4)] e show ?thesis by simp
    qed
  next
    case left
    from sibling_ids(1) [OF left] member_ids [OF "3.prems"(3)] "3.prems"(4)
    have "a \<in> set (idsOf t)" by auto
    with d(3) have "a \<notin> set (idsOfAll ts)" by auto
    then have "subtreeIdsAll a ts = []" by (rule subtreeIds_absent(2))
    with "3.IH"(1) [OF d(1) left "3.prems"(3,4)] show ?thesis by simp
  next
    case rest
    from sibling_ids(2) [OF rest] member_ids [OF "3.prems"(3)] "3.prems"(4)
    have "a \<in> set (idsOfAll ts)" by auto
    with d(3) have "a \<notin> set (idsOf t)" by auto
    then have e: "subtreeIds a t = []" by (rule subtreeIds_absent(1))
    from rest have "sib \<in> set (ts # siblingListsAll ts)" by simp
    from "3.IH"(2) [OF d(2) this "3.prems"(3,4)] e show ?thesis by simp
  qed
qed

lemma group_distinct:
  "distinct (idsOfAll ts) \<Longrightarrow> sib \<in> set (ts # siblingListsAll ts) \<Longrightarrow> distinct (idsOfAll sib)"
  using sibling_distinct(2) [of ts sib] by auto

lemma sibling_subtrees_unrelated:
  assumes "distinct (idsOfAll forest)" and "sib \<in> set (forest # siblingListsAll forest)"
    and "t1 \<in> set sib" "t2 \<in> set sib" "t1 \<noteq> t2"
    and "a \<in> set (idsOf t1)" "b \<in> set (idsOf t2)"
  shows "b \<notin> set (subtreeIdsAll a forest)"
proof
  assume "b \<in> set (subtreeIdsAll a forest)"
  with subtree_within_sibling(2) [OF assms(1,2,3,6)] have "b \<in> set (idsOf t1)" by auto
  with siblings_disjoint [OF group_distinct [OF assms(1,2)] assms(3,4,5)] assms(7)
  show False by auto
qed

lemma filter_unique_id:
  "distinct (map node_id ns) \<Longrightarrow> B \<in> set ns \<Longrightarrow> filter (\<lambda>n. node_id n = node_id B) ns = [B]"
proof (induction ns)
  case Nil
  then show ?case by simp
next
  case (Cons a ns)
  show ?case
  proof (cases "a = B")
    case True
    with Cons.prems(1) have "node_id B \<notin> node_id ` set ns" by simp
    then have "\<forall>z \<in> set ns. node_id z \<noteq> node_id B" by (metis image_eqI)
    then have "filter (\<lambda>n. node_id n = node_id B) ns = []" by (simp add: filter_empty_conv)
    with True show ?thesis by simp
  next
    case False
    with Cons.prems have "B \<in> set ns" "node_id a \<noteq> node_id B" by auto
    with Cons show ?thesis by simp
  qed
qed

lemma unique_by_id:
  "distinct (map node_id ns) \<Longrightarrow> A \<in> set ns \<Longrightarrow> z \<in> set ns \<Longrightarrow> node_id z = node_id A \<Longrightarrow> z = A"
  by (metis distinct_map inj_onD)

lemma query_is_containment:
  assumes d: "distinct (map node_id (policy_attributes policy))"
    and A: "A \<in> set (policy_attributes policy)" and B: "B \<in> set (policy_attributes policy)"
  shows "isAncestorOrSelf policy (node_id A) (node_id B)
           \<longleftrightarrow> left A \<le> left B \<and> right A \<ge> right B"
proof -
  have agg: "aggregateUnwindMatch [policy] (node_id B) = [B]"
    by (simp add: aggregateUnwindMatch_def filter_unique_id [OF d B])
  have "list_ex (elemMatch [node_id A] B) (policy_attributes policy)
          \<longleftrightarrow> left A \<le> left B \<and> right A \<ge> right B"
  proof
    assume "list_ex (elemMatch [node_id A] B) (policy_attributes policy)"
    then obtain z where z: "z \<in> set (policy_attributes policy)" "node_id A = node_id z"
      "left z \<le> left B" "right B \<le> right z"
      by (auto simp: list_ex_iff elemMatch_def)
    from unique_by_id [OF d A z(1)] z(2) have "z = A" by simp
    with z show "left A \<le> left B \<and> right A \<ge> right B" by simp
  next
    assume "left A \<le> left B \<and> right A \<ge> right B"
    with A show "list_ex (elemMatch [node_id A] B) (policy_attributes policy)"
      by (auto simp: list_ex_iff elemMatch_def)
  qed
  then show ?thesis
    by (simp add: isAncestorOrSelf_def nestedSetQuery_def agg)
qed

lemma unknown_target:
  "targetId \<notin> set (map node_id (policy_attributes policy))
    \<Longrightarrow> nestedSetQuery [policy] [targetId] upp = Inr None"
proof -
  assume "targetId \<notin> set (map node_id (policy_attributes policy))"
  then have "filter (\<lambda>n. node_id n = targetId) (policy_attributes policy) = []"
    by (auto simp: filter_empty_conv)
  then show ?thesis by (simp add: nestedSetQuery_def aggregateUnwindMatch_def)
qed

lemma unknown_candidate:
  assumes "candidateId \<notin> set (map node_id (policy_attributes policy))"
  shows "nestedSetQuery [policy] [targetId] [candidateId] = Inr None"
proof -
  have "\<not> list_ex (elemMatch [candidateId] t) (policy_attributes policy)" for t
    using assms by (auto simp: list_ex_iff elemMatch_def)
  then show ?thesis
    by (simp add: nestedSetQuery_def split: list.splits)
qed

text \<open>
  Claim C3. For two nodes \<open>A\<close>, \<open>B\<close> of a policy with unique ids,
  \<open>isAncestorOrSelf(A.id, B.id)\<close> is true iff \<open>A.left \<le> B.left\<close> and \<open>A.right \<ge> B.right\<close>. When
  the policy is the pre-order numbering of a forest, this is the case iff \<open>B\<close> lies in the
  subtree rooted at \<open>A\<close>; so it is true for every ancestor-descendant pair and false for
  nodes of two different sibling subtrees.
\<close>

theorem nested_set_containment:
  assumes "distinct (map node_id (policy_attributes policy))"
    and "A \<in> set (policy_attributes policy)" and "B \<in> set (policy_attributes policy)"
  shows "(isAncestorOrSelf policy (node_id A) (node_id B)
            \<longleftrightarrow> left A \<le> left B \<and> right A \<ge> right B)
     \<and> (policy_attributes policy = fst (numberForest n forest) \<longrightarrow>
          (isAncestorOrSelf policy (node_id A) (node_id B)
             \<longleftrightarrow> node_id B \<in> set (subtreeIdsAll (node_id A) forest))
          \<and> (siblings \<in> set (forest # siblingListsAll forest)
               \<and> t1 \<in> set siblings \<and> t2 \<in> set siblings \<and> t1 \<noteq> t2
               \<and> node_id A \<in> set (idsOf t1) \<and> node_id B \<in> set (idsOf t2)
              \<longrightarrow> \<not> isAncestorOrSelf policy (node_id A) (node_id B)))"
proof -
  have q: "isAncestorOrSelf policy (node_id A) (node_id B)
            \<longleftrightarrow> left A \<le> left B \<and> right A \<ge> right B"
    by (rule query_is_containment [OF assms])
  have tree: "isAncestorOrSelf policy (node_id A) (node_id B)
             \<longleftrightarrow> node_id B \<in> set (subtreeIdsAll (node_id A) forest)"
    and d: "distinct (idsOfAll forest)"
    if p: "policy_attributes policy = fst (numberForest n forest)"
  proof -
    from p assms(1) show d: "distinct (idsOfAll forest)"
      by (simp add: numbering_ids)
    from containment_iff_subtree(2) [OF d, of A n B] assms(2,3) p
    have "(left A \<le> left B \<and> right B \<le> right A)
          = (node_id B \<in> set (subtreeIdsAll (node_id A) forest))"
      by simp
    with q show "isAncestorOrSelf policy (node_id A) (node_id B)
             \<longleftrightarrow> node_id B \<in> set (subtreeIdsAll (node_id A) forest)"
      by simp
  qed
  have sib: "\<not> isAncestorOrSelf policy (node_id A) (node_id B)"
    if p: "policy_attributes policy = fst (numberForest n forest)"
      and s: "siblings \<in> set (forest # siblingListsAll forest)"
        "t1 \<in> set siblings" "t2 \<in> set siblings" "t1 \<noteq> t2"
        "node_id A \<in> set (idsOf t1)" "node_id B \<in> set (idsOf t2)"
    using sibling_subtrees_unrelated [OF d [OF p] s] tree [OF p] by simp
  from q tree sib show ?thesis by blast
qed

theorem nested_set_containment_witness:
  "policy_attributes quickTestPolicy = fst (numberForest 1 quickTestForest)
   \<and> isAncestorOrSelf quickTestPolicy ''attr1'' ''attr2''
   \<and> ''attr2'' \<in> set (subtreeIdsAll ''attr1'' quickTestForest)
   \<and> \<not> isAncestorOrSelf quickTestPolicy ''attr2'' ''attr3''
   \<and> ''attr3'' \<notin> set (subtreeIdsAll ''attr2'' quickTestForest)"
proof -
  have d: "distinct (map node_id (policy_attributes quickTestPolicy))"
    by (simp add: quickTestPolicy_def)
  have m: "locationNode \<in> set (policy_attributes quickTestPolicy)"
    "gpsNode \<in> set (policy_attributes quickTestPolicy)"
    "ipNode \<in> set (policy_attributes quickTestPolicy)"
    by (simp_all add: quickTestPolicy_def locationNode_def gpsNode_def ipNode_def)
  have p: "policy_attributes quickTestPolicy = fst (numberForest 1 quickTestForest)"
    by (simp add: quickTestForest_def quickTestPolicy_def)
  have s: "''attr2'' \<in> set (subtreeIdsAll ''attr1'' quickTestForest)"
    "''attr3'' \<notin> set (subtreeIdsAll ''attr2'' quickTestForest)"
    by (simp_all add: quickTestForest_def)
  have g: "[Taxon ''attr2'' ''GPS'' [], Taxon ''attr3'' ''IP Address'' []]
             \<in> set (quickTestForest # siblingListsAll quickTestForest)
     \<and> Taxon ''attr2'' ''GPS'' [] \<in> set [Taxon ''attr2'' ''GPS'' [], Taxon ''attr3'' ''IP Address'' []]
     \<and> Taxon ''attr3'' ''IP Address'' []
          \<in> set [Taxon ''attr2'' ''GPS'' [], Taxon ''attr3'' ''IP Address'' []]
     \<and> Taxon ''attr2'' ''GPS'' [] \<noteq> Taxon ''attr3'' ''IP Address'' []
     \<and> node_id gpsNode \<in> set (idsOf (Taxon ''attr2'' ''GPS'' []))
     \<and> node_id ipNode \<in> set (idsOf (Taxon ''attr3'' ''IP Address'' []))"
    by (simp add: quickTestForest_def gpsNode_def ipNode_def)
  from nested_set_containment [OF d m(1) m(2), of 1 quickTestForest] p s(1)
  have 1: "isAncestorOrSelf quickTestPolicy ''attr1'' ''attr2''"
    by (simp add: locationNode_def gpsNode_def)
  from nested_set_containment [OF d m(2) m(3), where n = 1 and forest = quickTestForest
      and siblings = "[Taxon ''attr2'' ''GPS'' [], Taxon ''attr3'' ''IP Address'' []]"
      and ?t1.0 = "Taxon ''attr2'' ''GPS'' []" and ?t2.0 = "Taxon ''attr3'' ''IP Address'' []"]
    p g
  have 2: "\<not> isAncestorOrSelf quickTestPolicy ''attr2'' ''attr3''"
    by (simp add: ipNode_def gpsNode_def)
  from p s 1 2 show ?thesis by blast
qed

section \<open>Unknown policy ids\<close>

text \<open>
  Claim C9, as the specification states it, fails on the flat evaluator: \<open>ghost\<close> is not a
  node of the policy, the app requires it, the user allows it, and the evaluator grants.
\<close>

theorem unknown_id_granted:
  "''ghost'' \<notin> set (map node_id (policy_attributes quickTestPolicy))
   \<and> ''ghost'' \<in> set (app_attributes ghostApp)
   \<and> ''ghost'' \<in> set (pp_attributes (privacyPreference ghostUser))
   \<and> result (evaluateFlatHierarchy ghostApp ghostUser) = ''grant''"
  by (simp add: quickTestPolicy_def evaluateFlatHierarchy_def ghostApp_def ghostUser_def
        orEmpty_def Let_def)

lemma per_throws:
  assumes "findOneEvaluateHash coll (user_id u) (cacheKeyOf E a u)
             (retentionCutoff now (pp_timeofRetention (privacyPreference u))) = Inr None"
    and "evaluate E a u = Inl message"
  shows "processEvaluationRequest E a u now created coll = (Inl message, coll)"
  using assms by (simp add: processEvaluationRequest_def Let_def)

text \<open>
  Claim C9 (amended). An id that is not a node of the policy fails the containment check
  of the nested-set query, as candidate and as target. The flat evaluator does not consult
  the policy: a required id that the user's allowed list does not contain gives deny. When
  the evaluator throws on a cache miss, \<open>processEvaluationRequest\<close> rejects and
  \<open>POST /api/evaluate\<close> answers 500 "Evaluation failed"; nothing is cached and no grant is
  reported.
\<close>

theorem unknown_ids_fail_checks:
  "(targetId \<notin> set (map node_id (policy_attributes policy))
      \<or> candidateId \<notin> set (map node_id (policy_attributes policy))
     \<longrightarrow> \<not> isAncestorOrSelf policy candidateId targetId)
   \<and> (x \<in> set (app_attributes a) \<and> x \<notin> set (pp_attributes (privacyPreference u))
     \<longrightarrow> result (evaluateFlatHierarchy a u) = ''deny'')
   \<and> (y \<in> set (app_purposes a) \<and> y \<notin> set (pp_allowedPurposes (privacyPreference u))
     \<longrightarrow> result (evaluateFlatHierarchy a u) = ''deny'')
   \<and> (evaluate E doc u = Inl message
       \<and> findOneEvaluateHash (db_evaluateHash d) (user_id u) (cacheKeyOf E doc u)
             (retentionCutoff now (pp_timeofRetention (privacyPreference u))) = Inr None
     \<longrightarrow> processEvaluationRequest E doc u now created (db_evaluateHash d)
           = (Inl message, db_evaluateHash d)
         \<and> (appId \<noteq> [] \<and> userId \<noteq> []
              \<and> find (\<lambda>x. app_id x = appId) (db_apps d) = Some doc
              \<and> find (\<lambda>x. user_id x = userId) (db_users d) = Some u
            \<longrightarrow> postEvaluate E (Some appId) (Some userId) now created d
                  = (Status500 ''Evaluation failed'' message, d)))"
proof -
  have t: "\<not> isAncestorOrSelf policy candidateId targetId"
    if "targetId \<notin> set (map node_id (policy_attributes policy))"
    using unknown_target [OF that] by (simp add: isAncestorOrSelf_def)
  have c: "\<not> isAncestorOrSelf policy candidateId targetId"
    if "candidateId \<notin> set (map node_id (policy_attributes policy))"
    using unknown_candidate [OF that] by (simp add: isAncestorOrSelf_def)
  have fa: "result (evaluateFlatHierarchy a u) = ''deny''"
    if "x \<in> set (app_attributes a)" "x \<notin> set (pp_attributes (privacyPreference u))"
    using that by (auto simp: flat_fields)
  have fp: "result (evaluateFlatHierarchy a u) = ''deny''"
    if "y \<in> set (app_purposes a)" "y \<notin> set (pp_allowedPurposes (privacyPreference u))"
    using that by (auto simp: flat_fields)
  have e1: "processEvaluationRequest E doc u now created (db_evaluateHash d)
           = (Inl message, db_evaluateHash d)"
    if "evaluate E doc u = Inl message"
       "findOneEvaluateHash (db_evaluateHash d) (user_id u) (cacheKeyOf E doc u)
             (retentionCutoff now (pp_timeofRetention (privacyPreference u))) = Inr None"
    by (rule per_throws [OF that(2,1)])
  have e2: "postEvaluate E (Some appId) (Some userId) now created d
                  = (Status500 ''Evaluation failed'' message, d)"
    if "evaluate E doc u = Inl message"
       "findOneEvaluateHash (db_evaluateHash d) (user_id u) (cacheKeyOf E doc u)
             (retentionCutoff now (pp_timeofRetention (privacyPreference u))) = Inr None"
       "appId \<noteq> []" "userId \<noteq> []"
       "find (\<lambda>x. app_id x = appId) (db_apps d) = Some doc"
       "find (\<lambda>x. user_id x = userId) (db_users d) = Some u"
    using that(1,2) by (simp add: post_found [OF that(3-6)])
  from t c fa fp e1 e2 show ?thesis by blast
qed

theorem unknown_ids_fail_checks_witness:
  "\<not> isAncestorOrSelf quickTestPolicy ''attr1'' ''ghost''
   \<and> \<not> isAncestorOrSelf quickTestPolicy ''ghost'' ''attr2''
   \<and> result (evaluateFlatHierarchy ghostApp gpsDenyingUser) = ''deny''
   \<and> postEvaluate failingEnv (Some ''app6'') (Some ''user6'') (Date 1000) (Date 1001)
        \<lparr> db_apps = [ghostDocument], db_users = [ghostUser], db_evaluateHash = [] \<rparr>
       = (Status500 ''Evaluation failed'' ''Cast to ObjectId failed'',
          \<lparr> db_apps = [ghostDocument], db_users = [ghostUser], db_evaluateHash = [] \<rparr>)"
proof -
  let ?d = "\<lparr> db_apps = [ghostDocument], db_users = [ghostUser], db_evaluateHash = [] \<rparr>"
  have g: "''ghost'' \<notin> set (map node_id (policy_attributes quickTestPolicy))"
    by (simp add: quickTestPolicy_def)
  have m: "''ghost'' \<in> set (app_attributes ghostApp)"
    "''ghost'' \<notin> set (pp_attributes (privacyPreference gpsDenyingUser))"
    by (simp_all add: ghostApp_def gpsDenyingUser_def)
  have ev: "evaluate failingEnv ghostDocument ghostUser = Inl ''Cast to ObjectId failed''"
    by (simp add: failingEnv_def)
  have miss: "findOneEvaluateHash (db_evaluateHash ?d) (user_id ghostUser)
       (cacheKeyOf failingEnv ghostDocument ghostUser)
       (retentionCutoff (Date 1000) (pp_timeofRetention (privacyPreference ghostUser)))
       = Inr None"
    by (simp add: findOneEvaluateHash_def retentionCutoff_def Let_def ghostUser_def
          getTime_Date maxTime_def)
  have found: "''app6'' \<noteq> [] \<and> ''user6'' \<noteq> []
      \<and> find (\<lambda>x. app_id x = ''app6'') (db_apps ?d) = Some ghostDocument
      \<and> find (\<lambda>x. user_id x = ''user6'') (db_users ?d) = Some ghostUser"
    by (simp add: ghostDocument_def ghostUser_def)
  from unknown_ids_fail_checks [where targetId = "''ghost''" and candidateId = "''attr1''"
      and policy = quickTestPolicy and x = "''ghost''" and a = ghostApp and u = gpsDenyingUser]
    g m
  have 1: "\<not> isAncestorOrSelf quickTestPolicy ''attr1'' ''ghost''"
    and 3: "result (evaluateFlatHierarchy ghostApp gpsDenyingUser) = ''deny''"
    by blast+
  from unknown_ids_fail_checks [where targetId = "''attr2''" and candidateId = "''ghost''"
      and policy = quickTestPolicy] g
  have 2: "\<not> isAncestorOrSelf quickTestPolicy ''ghost'' ''attr2''"
    by blast
  from unknown_ids_fail_checks [where E = failingEnv and doc = ghostDocument and u = ghostUser
      and message = "''Cast to ObjectId failed''" and d = ?d and now = "Date 1000"
      and created = "Date 1001" and appId = "''app6''" and userId = "''user6''"]
    ev miss found
  have 4: "postEvaluate failingEnv (Some ''app6'') (Some ''user6'') (Date 1000) (Date 1001) ?d
       = (Status500 ''Evaluation failed'' ''Cast to ObjectId failed'', ?d)"
    by blast
  from 1 2 3 4 show ?thesis by blast
qed

end
